theory Spec2Isabelle
  imports Complex_Main "HOL-Library.Multiset"
begin

section \<open>QBX refinement: the data the checkers read\<close>

text \<open>
  The embedding follows \<^verbatim>\<open>pytential/qbx/refinement.py\<close>. Coordinates
  (\<^verbatim>\<open>coord_t\<close>) are exact reals, a coordinate vector (\<^verbatim>\<open>coord_vec_t\<close>) is a list
  of them, particle, box and panel numbers are naturals, and the refine flags
  (\<^verbatim>\<open>np.int32\<close>) are integers. Rounding of floating-point arithmetic is not modelled.

  A tree carries the arrays the two area-query kernels receive from it. Three things the
  kernels use are not defined in this source file and are taken as they come:
  \<^item> \<open>source_particle\<close> and \<open>center_particle\<close> stand for
    \<^verbatim>\<open>load_particle(INDEX_FOR_SOURCE_PARTICLE(i))\<close> and
    \<^verbatim>\<open>load_particle(INDEX_FOR_CENTER_PARTICLE(i))\<close>;
  \<^item> \<open>leaves_in_ball\<close> stands for the area query of the elementwise template (with the
    peer lists of the tree): the leaf boxes on which \<^verbatim>\<open>leaf_found_op\<close> runs for a
    ball given by its center and radius.
\<close>

record tree =
  nqbxpanels :: nat
  nqbxsources :: nat
  nqbxcenters :: nat
  box_to_qbx_source_starts :: "nat list"
  box_to_qbx_source_lists :: "nat list"
  box_to_qbx_center_starts :: "nat list"
  box_to_qbx_center_lists :: "nat list"
  qbx_panel_to_source_starts :: "nat list"
  qbx_panel_to_center_starts :: "nat list"
  source_particle :: "nat \<Rightarrow> real list"
  center_particle :: "nat \<Rightarrow> real list"
  leaves_in_ball :: "real list \<Rightarrow> real \<Rightarrow> nat list"

text \<open>
  The wrangler bundles what the refiner obtains from its collaborators: the binary search
  and the distance function of the kernels' preamble, the geometric quantities bound on a
  discretization (\<open>'d\<close>), the tree builder, and the mesh refiner (\<open>'r\<close>) with the
  connection (\<open>'c\<close>) it yields.
\<close>

record ('d, 'r, 'c) wrangler =
  bsearch :: "nat list \<Rightarrow> nat \<Rightarrow> nat \<Rightarrow> nat"
  distance :: "real list \<Rightarrow> real list \<Rightarrow> real"
  mesh_nelements :: "'d \<Rightarrow> nat"
  quad_resolution :: "'d \<Rightarrow> real list"
  scaled_max_curvature :: "'d \<Rightarrow> real list"
  expansion_radii :: "'d \<Rightarrow> real list"
  source_danger_zone_radii :: "'d \<Rightarrow> real list"
  build_tree :: "'d \<Rightarrow> tree"
  build_tree_stage2 :: "'d \<Rightarrow> 'd \<Rightarrow> tree"
  refiner_refine :: "'r \<Rightarrow> bool list \<Rightarrow> 'r"
  make_refinement_connection :: "'r \<Rightarrow> 'd \<Rightarrow> 'c"
  to_discr :: "'c \<Rightarrow> 'd"
  RefinerWithoutAdjacency :: "'d \<Rightarrow> 'r"

section \<open>The kernels\<close>

text \<open>
  A kernel's two outputs, \<^verbatim>\<open>panel_refine_flags\<close> and
  \<^verbatim>\<open>found_panel_to_refine\<close>, are a pair that each work item takes and returns. The
  work items run in index order here; every write stores the constant 1.
\<close>

type_synonym kernel_out = "int list \<times> int"

text \<open>
  Condition 1, \<^verbatim>\<open>leaf_found_op\<close>: the loop over the source indices of one leaf box,
  left by \<^verbatim>\<open>break\<close> at the first close source.
\<close>

fun c1_leaf_sources ::
  "('d, 'r, 'c) wrangler \<Rightarrow> tree \<Rightarrow> real list \<Rightarrow> real \<Rightarrow> nat \<Rightarrow> real list \<Rightarrow>
     nat list \<Rightarrow> kernel_out \<Rightarrow> kernel_out" where
  "c1_leaf_sources W t center_danger_zone_radii expansion_disturbance_tolerance icenter
       ball_center [] out = out"
| "c1_leaf_sources W t center_danger_zone_radii expansion_disturbance_tolerance icenter
       ball_center (source_idx # rest) out =
     (let source = box_to_qbx_source_lists t ! source_idx;
          source_panel = bsearch W (qbx_panel_to_source_starts t) (nqbxpanels t + 1) source;
          center_panel = bsearch W (qbx_panel_to_center_starts t) (nqbxpanels t + 1) icenter;
          source_coords = source_particle t source;
          is_close = (distance W ball_center source_coords
                       \<le> (1 - expansion_disturbance_tolerance)
                           * center_danger_zone_radii ! icenter)
      in if is_close then ((fst out)[center_panel := 1], 1)
         else c1_leaf_sources W t center_danger_zone_radii expansion_disturbance_tolerance
                icenter ball_center rest out)"

definition c1_leaf_found_op ::
  "('d, 'r, 'c) wrangler \<Rightarrow> tree \<Rightarrow> real list \<Rightarrow> real \<Rightarrow> nat \<Rightarrow> real list \<Rightarrow>
     nat \<Rightarrow> kernel_out \<Rightarrow> kernel_out" where
  "c1_leaf_found_op W t center_danger_zone_radii expansion_disturbance_tolerance icenter
       ball_center leaf_box_id out =
     c1_leaf_sources W t center_danger_zone_radii expansion_disturbance_tolerance icenter
       ball_center
       [box_to_qbx_source_starts t ! leaf_box_id ..<
          box_to_qbx_source_starts t ! (leaf_box_id + 1)] out"

text \<open>
  One work item of \<^verbatim>\<open>check_center_closest_to_orig_panel\<close>: the ball of center
  \<open>i\<close>, then \<^verbatim>\<open>leaf_found_op\<close> on every leaf box the area query finds for it.
\<close>

definition c1_work_item ::
  "('d, 'r, 'c) wrangler \<Rightarrow> tree \<Rightarrow> real list \<Rightarrow> real \<Rightarrow> nat \<Rightarrow> kernel_out \<Rightarrow> kernel_out" where
  "c1_work_item W t center_danger_zone_radii expansion_disturbance_tolerance i out =
     (let icenter = i;
          ball_center = center_particle t icenter;
          ball_radius = (1 - expansion_disturbance_tolerance)
                          * center_danger_zone_radii ! icenter
      in fold (c1_leaf_found_op W t center_danger_zone_radii expansion_disturbance_tolerance
                 icenter ball_center)
           (leaves_in_ball t ball_center ball_radius) out)"

definition expansion_disk_undisturbed_by_sources_checker ::
  "('d, 'r, 'c) wrangler \<Rightarrow> tree \<Rightarrow> real list \<Rightarrow> real \<Rightarrow> kernel_out \<Rightarrow> kernel_out" where
  "expansion_disk_undisturbed_by_sources_checker W t center_danger_zone_radii
       expansion_disturbance_tolerance out =
     fold (c1_work_item W t center_danger_zone_radii expansion_disturbance_tolerance)
       [0..<nqbxcenters t] out"

text \<open>
  Condition 2, \<^verbatim>\<open>leaf_found_op\<close>: the loop over the center indices of one leaf box;
  \<open>my_panel\<close> is the panel of the source the work item belongs to.
\<close>

fun c2_leaf_centers ::
  "('d, 'r, 'c) wrangler \<Rightarrow> tree \<Rightarrow> real list \<Rightarrow> nat \<Rightarrow> real list \<Rightarrow>
     nat list \<Rightarrow> kernel_out \<Rightarrow> kernel_out" where
  "c2_leaf_centers W t source_danger_zone_radii_by_panel my_panel ball_center [] out = out"
| "c2_leaf_centers W t source_danger_zone_radii_by_panel my_panel ball_center
       (center_idx # rest) out =
     (let center = box_to_qbx_center_lists t ! center_idx;
          center_coords = center_particle t center;
          is_close = (distance W ball_center center_coords
                       \<le> source_danger_zone_radii_by_panel ! my_panel)
      in if is_close then ((fst out)[my_panel := 1], 1)
         else c2_leaf_centers W t source_danger_zone_radii_by_panel my_panel ball_center
                rest out)"

definition c2_leaf_found_op ::
  "('d, 'r, 'c) wrangler \<Rightarrow> tree \<Rightarrow> real list \<Rightarrow> nat \<Rightarrow> real list \<Rightarrow>
     nat \<Rightarrow> kernel_out \<Rightarrow> kernel_out" where
  "c2_leaf_found_op W t source_danger_zone_radii_by_panel my_panel ball_center
       leaf_box_id out =
     c2_leaf_centers W t source_danger_zone_radii_by_panel my_panel ball_center
       [box_to_qbx_center_starts t ! leaf_box_id ..<
          box_to_qbx_center_starts t ! (leaf_box_id + 1)] out"

definition c2_work_item ::
  "('d, 'r, 'c) wrangler \<Rightarrow> tree \<Rightarrow> real list \<Rightarrow> nat \<Rightarrow> kernel_out \<Rightarrow> kernel_out" where
  "c2_work_item W t source_danger_zone_radii_by_panel i out =
     (let my_panel = bsearch W (qbx_panel_to_source_starts t) (nqbxpanels t + 1) i;
          ball_center = source_particle t i;
          ball_radius = source_danger_zone_radii_by_panel ! my_panel
      in fold (c2_leaf_found_op W t source_danger_zone_radii_by_panel my_panel ball_center)
           (leaves_in_ball t ball_center ball_radius) out)"

definition sufficient_source_quadrature_resolution_checker ::
  "('d, 'r, 'c) wrangler \<Rightarrow> tree \<Rightarrow> real list \<Rightarrow> kernel_out \<Rightarrow> kernel_out" where
  "sufficient_source_quadrature_resolution_checker W t source_danger_zone_radii_by_panel out =
     fold (c2_work_item W t source_danger_zone_radii_by_panel) [0..<nqbxsources t] out"

text \<open>
  The threshold kernel: \<^verbatim>\<open>for ielement\<close> over \<open>0 \<le> ielement < nelements\<close>,
  where \<open>nelements\<close> is the length of the flags.
\<close>

definition threshold_work_item :: "real list \<Rightarrow> real \<Rightarrow> nat \<Rightarrow> kernel_out \<Rightarrow> kernel_out" where
  "threshold_work_item element_property threshold ielement out =
     (let over_threshold = (element_property ! ielement > threshold)
      in if over_threshold then ((fst out)[ielement := 1], 1) else out)"

definition element_prop_threshold_checker :: "real list \<Rightarrow> real \<Rightarrow> kernel_out \<Rightarrow> kernel_out" where
  "element_prop_threshold_checker element_property threshold out =
     fold (threshold_work_item element_property threshold) [0..<length (fst out)] out"

section \<open>The wrangler's checks\<close>

text \<open>
  Each check starts its kernel with the signal at 0 and the caller's flags, and returns
  whether the signal is 1 together with the flags as the kernel left them (the source
  updates the caller's array in place). The \<^verbatim>\<open>debug\<close> branches only log.
\<close>

definition check_expansion_disks_undisturbed_by_sources ::
  "('d, 'r, 'c) wrangler \<Rightarrow> 'd \<Rightarrow> tree \<Rightarrow> real \<Rightarrow> int list \<Rightarrow> bool \<times> int list" where
  "check_expansion_disks_undisturbed_by_sources W stage1_density_discr t
       expansion_disturbance_tolerance refine_flags =
     (let found_panel_to_refine = 0;
          center_danger_zone_radii = expansion_radii W stage1_density_discr;
          out = expansion_disk_undisturbed_by_sources_checker W t center_danger_zone_radii
                  expansion_disturbance_tolerance (refine_flags, found_panel_to_refine)
      in (snd out = 1, fst out))"

definition check_sufficient_source_quadrature_resolution ::
  "('d, 'r, 'c) wrangler \<Rightarrow> 'd \<Rightarrow> tree \<Rightarrow> int list \<Rightarrow> bool \<times> int list" where
  "check_sufficient_source_quadrature_resolution W stage2_density_discr t refine_flags =
     (let found_panel_to_refine = 0;
          source_danger_zone_radii_by_panel = source_danger_zone_radii W stage2_density_discr;
          out = sufficient_source_quadrature_resolution_checker W t
                  source_danger_zone_radii_by_panel (refine_flags, found_panel_to_refine)
      in (snd out = 1, fst out))"

definition check_element_prop_threshold :: "real list \<Rightarrow> real \<Rightarrow> int list \<Rightarrow> bool \<times> int list" where
  "check_element_prop_threshold element_property threshold refine_flags =
     (let out = element_prop_threshold_checker element_property threshold (refine_flags, 0)
      in (snd out = 1, fst out))"

section \<open>Refinement of the mesh\<close>

text \<open>
  \<^verbatim>\<open>make_empty_refine_flags\<close>: one zero per element of the mesh.
\<close>

definition make_empty_refine_flags :: "('d, 'r, 'c) wrangler \<Rightarrow> 'd \<Rightarrow> int list" where
  "make_empty_refine_flags W density_discr = replicate (mesh_nelements W density_discr) 0"

text \<open>
  \<^verbatim>\<open>RefinerWrangler.refine\<close>: the flags are cast to booleans
  (\<^verbatim>\<open>astype(np.bool)\<close>: nonzero is true), the refiner refines its mesh, and the
  connection from the old discretization is made. The refiner is changed in place in the
  source and is returned here beside the connection. A boolean array such as
  \<^verbatim>\<open>np.ones(n, dtype=np.bool)\<close> is passed as the integers it equals.
\<close>

definition wrangler_refine ::
  "('d, 'r, 'c) wrangler \<Rightarrow> 'd \<Rightarrow> 'r \<Rightarrow> int list \<Rightarrow> 'r \<times> 'c" where
  "wrangler_refine W density_discr refiner refine_flags =
     (let refine_flags = map (\<lambda>f. f \<noteq> 0) refine_flags;
          refiner = refiner_refine W refiner refine_flags;
          conn = make_refinement_connection W refiner density_discr
      in (refiner, conn))"

section \<open>The control loops\<close>

text \<open>
  What a loop does to its collaborators is recorded as the list of calls it makes, in
  order: the checks, the tree build, the visualizer, the refinement (with the flags as
  the refiner receives them) and the warning of \<^verbatim>\<open>_warn_max_iterations\<close> (with
  the history and the tolerance its message is formatted from). With Python's default
  warning filter the warning does not raise, and the loops return after it.
\<close>

datatype call =
    Call_check_kernel_length_scale
  | Call_check_scaled_max_curv
  | Call_build_tree
  | Call_find_peer_lists
  | Call_check_expansion_disks_undisturbed_by_sources
  | Call_make_quad_stage2_discr
  | Call_check_sufficient_source_quadrature_resolution
  | Call_visualize_refinement int int string
  | Call_refine "bool list"
  | Call_warn_max_iterations "string list" real

text \<open>
  The local variables of a loop. \<open>current_discr\<close> is
  \<^verbatim>\<open>stage1_density_discr\<close> in stage 1 and \<^verbatim>\<open>stage2_density_discr\<close> in
  stage 2.
\<close>

record ('d, 'r, 'c) refine_state =
  connections :: "'c list"
  violated_criteria :: "string list"
  iter_violated_criteria :: "string list"
  niter :: int
  current_discr :: 'd
  current_refiner :: 'r
  calls :: "call list"

datatype ('d, 'c) chained_connection =
  ChainedDiscretizationConnection (chained_connections: "'c list") (from_discr: 'd)

text \<open>\<^verbatim>\<open>sep.join(xs)\<close> of Python.\<close>

fun join :: "string \<Rightarrow> string list \<Rightarrow> string" where
  "join sep [] = []"
| "join sep [x] = x"
| "join sep (x # y # ys) = x @ sep @ join sep (y # ys)"

text \<open>
  The three checks of a stage-1 iteration, each on the state and the flags of the
  iteration.
\<close>

definition stage1_check_kernel_length_scale ::
  "('d, 'r, 'c) wrangler \<Rightarrow> real \<Rightarrow> bool \<Rightarrow> ('d, 'r, 'c) refine_state \<times> int list \<Rightarrow>
     ('d, 'r, 'c) refine_state \<times> int list" where
  "stage1_check_kernel_length_scale W kernel_length_scale visualize p =
     (let st = fst p;
          quad_res = quad_resolution W (current_discr st);
          r = check_element_prop_threshold quad_res kernel_length_scale (snd p);
          violates_kernel_length_scale = fst r;
          refine_flags = snd r;
          st = st\<lparr>calls := calls st @ [Call_check_kernel_length_scale]\<rparr>
      in if violates_kernel_length_scale
         then (st\<lparr>iter_violated_criteria :=
                     iter_violated_criteria st @ [''kernel length scale''],
                   calls := calls st @
                     (if visualize
                      then [Call_visualize_refinement (niter st) 1 ''kernel-length-scale'']
                      else [])\<rparr>,
               refine_flags)
         else (st, refine_flags))"

definition stage1_check_scaled_max_curv ::
  "('d, 'r, 'c) wrangler \<Rightarrow> real \<Rightarrow> bool \<Rightarrow> ('d, 'r, 'c) refine_state \<times> int list \<Rightarrow>
     ('d, 'r, 'c) refine_state \<times> int list" where
  "stage1_check_scaled_max_curv W scaled_max_curvature_threshold visualize p =
     (let st = fst p;
          scaled_max_curv = scaled_max_curvature W (current_discr st);
          r = check_element_prop_threshold scaled_max_curv scaled_max_curvature_threshold
                (snd p);
          violates_scaled_max_curv = fst r;
          refine_flags = snd r;
          st = st\<lparr>calls := calls st @ [Call_check_scaled_max_curv]\<rparr>
      in if violates_scaled_max_curv
         then (st\<lparr>iter_violated_criteria := iter_violated_criteria st @ [''curvature''],
                   calls := calls st @
                     (if visualize
                      then [Call_visualize_refinement (niter st) 1 ''curvature'']
                      else [])\<rparr>,
               refine_flags)
         else (st, refine_flags))"

definition stage1_check_disturbed_expansions ::
  "('d, 'r, 'c) wrangler \<Rightarrow> real \<Rightarrow> bool \<Rightarrow> ('d, 'r, 'c) refine_state \<times> int list \<Rightarrow>
     ('d, 'r, 'c) refine_state \<times> int list" where
  "stage1_check_disturbed_expansions W expansion_disturbance_tolerance visualize p =
     (let st = fst p;
          t = build_tree W (current_discr st);
          r = check_expansion_disks_undisturbed_by_sources W (current_discr st) t
                expansion_disturbance_tolerance (snd p);
          has_disturbed_expansions = fst r;
          refine_flags = snd r;
          st = st\<lparr>calls := calls st @
                 [Call_build_tree, Call_find_peer_lists,
                  Call_check_expansion_disks_undisturbed_by_sources]\<rparr>
      in if has_disturbed_expansions
         then (st\<lparr>iter_violated_criteria :=
                     iter_violated_criteria st @ [''disturbed expansions''],
                   calls := calls st @
                     (if visualize
                      then [Call_visualize_refinement (niter st) 1 ''disturbed-expansions'']
                      else [])\<rparr>,
               refine_flags)
         else (st, refine_flags))"

text \<open>
  The end of an iteration that found a violation: the history gets its entry, the mesh
  is refined with the iteration's flags, and the new discretization and its connection
  are kept.
\<close>

definition apply_refinement ::
  "('d, 'r, 'c) wrangler \<Rightarrow> ('d, 'r, 'c) refine_state \<times> int list \<Rightarrow>
     ('d, 'r, 'c) refine_state" where
  "apply_refinement W p =
     (let st = fst p;
          refine_flags = snd p;
          r = wrangler_refine W (current_discr st) (current_refiner st) refine_flags;
          conn = snd r
      in st\<lparr>violated_criteria :=
                violated_criteria st @ [join '' and '' (iter_violated_criteria st)],
              current_refiner := fst r,
              current_discr := to_discr W conn,
              connections := connections st @ [conn],
              calls := calls st @ [Call_refine (map (\<lambda>f. f \<noteq> 0) refine_flags)]\<rparr>)"

text \<open>
  The checks of one stage-1 iteration, from fresh flags, and the iteration as a whole
  (the body of the \<^verbatim>\<open>while\<close> loop after the test of the iteration cap).
\<close>

definition stage1_checks ::
  "('d, 'r, 'c) wrangler \<Rightarrow> real option \<Rightarrow> real option \<Rightarrow> real \<Rightarrow> bool \<Rightarrow>
     ('d, 'r, 'c) refine_state \<Rightarrow> ('d, 'r, 'c) refine_state \<times> int list" where
  "stage1_checks W kernel_length_scale scaled_max_curvature_threshold
       expansion_disturbance_tolerance visualize st =
     (let p = (st, make_empty_refine_flags W (current_discr st));
          p = (case kernel_length_scale of
                 None \<Rightarrow> p
               | Some k \<Rightarrow> stage1_check_kernel_length_scale W k visualize p);
          p = (case scaled_max_curvature_threshold of
                 None \<Rightarrow> p
               | Some c \<Rightarrow> stage1_check_scaled_max_curv W c visualize p)
      in if iter_violated_criteria (fst p) = []
         then stage1_check_disturbed_expansions W expansion_disturbance_tolerance
                visualize p
         else p)"

definition stage1_iteration ::
  "('d, 'r, 'c) wrangler \<Rightarrow> real option \<Rightarrow> real option \<Rightarrow> real \<Rightarrow> bool \<Rightarrow>
     ('d, 'r, 'c) refine_state \<Rightarrow> ('d, 'r, 'c) refine_state" where
  "stage1_iteration W kernel_length_scale scaled_max_curvature_threshold
       expansion_disturbance_tolerance visualize st =
     (let p = stage1_checks W kernel_length_scale scaled_max_curvature_threshold
                expansion_disturbance_tolerance visualize st
      in if iter_violated_criteria (fst p) \<noteq> [] then apply_refinement W p else fst p)"

text \<open>One stage-2 iteration.\<close>

definition stage2_checks ::
  "('d, 'r, 'c) wrangler \<Rightarrow> 'd \<Rightarrow> bool \<Rightarrow> ('d, 'r, 'c) refine_state \<Rightarrow>
     ('d, 'r, 'c) refine_state \<times> int list" where
  "stage2_checks W stage1_density_discr visualize st =
     (let t = build_tree_stage2 W stage1_density_discr (current_discr st);
          refine_flags = make_empty_refine_flags W (current_discr st);
          r = check_sufficient_source_quadrature_resolution W (current_discr st) t
                refine_flags;
          has_insufficient_quad_resolution = fst r;
          refine_flags = snd r;
          st = st\<lparr>calls := calls st @
                 [Call_make_quad_stage2_discr, Call_build_tree, Call_find_peer_lists,
                  Call_check_sufficient_source_quadrature_resolution]\<rparr>
      in if has_insufficient_quad_resolution
         then (st\<lparr>iter_violated_criteria :=
                     iter_violated_criteria st @ [''insufficient quadrature resolution''],
                   calls := calls st @
                     (if visualize
                      then [Call_visualize_refinement (niter st) 2 ''quad-resolution'']
                      else [])\<rparr>,
               refine_flags)
         else (st, refine_flags))"

definition stage2_iteration ::
  "('d, 'r, 'c) wrangler \<Rightarrow> 'd \<Rightarrow> bool \<Rightarrow> ('d, 'r, 'c) refine_state \<Rightarrow>
     ('d, 'r, 'c) refine_state" where
  "stage2_iteration W stage1_density_discr visualize st =
     (let p = stage2_checks W stage1_density_discr visualize st
      in if iter_violated_criteria (fst p) \<noteq> [] then apply_refinement W p else fst p)"

text \<open>The iteration counter is touched by the loop only, not by an iteration's body.\<close>

lemma niter_apply_refinement: "niter (apply_refinement W p) = niter (fst p)"
  by (simp add: apply_refinement_def Let_def)

lemma niter_stage1_checks:
  "niter (fst (stage1_checks W k c tol vis st)) = niter st"
  by (simp add: stage1_checks_def stage1_check_kernel_length_scale_def
      stage1_check_scaled_max_curv_def stage1_check_disturbed_expansions_def Let_def
      split: option.split)

lemma niter_stage1_iteration: "niter (stage1_iteration W k c tol vis st) = niter st"
  by (simp add: stage1_iteration_def Let_def niter_apply_refinement niter_stage1_checks)

lemma niter_stage2_iteration: "niter (stage2_iteration W d vis st) = niter st"
  by (simp add: stage2_iteration_def stage2_checks_def Let_def niter_apply_refinement)

text \<open>
  The \<^verbatim>\<open>while iter_violated_criteria:\<close> loop of stage 1. The recursion is on the
  state of the local variables; it ends because \<open>niter\<close> grows and the loop is left
  once it exceeds \<open>maxiter\<close>.
\<close>

function stage1_while ::
  "('d, 'r, 'c) wrangler \<Rightarrow> real option \<Rightarrow> real option \<Rightarrow> real \<Rightarrow> int \<Rightarrow> bool \<Rightarrow>
     ('d, 'r, 'c) refine_state \<Rightarrow> ('d, 'r, 'c) refine_state" where
  "stage1_while W kernel_length_scale scaled_max_curvature_threshold
       expansion_disturbance_tolerance maxiter visualize st =
     (if iter_violated_criteria st = [] then st
      else let st = st\<lparr>iter_violated_criteria := [], niter := niter st + 1\<rparr>
           in if niter st > maxiter
              then st\<lparr>calls := calls st @
                       [Call_warn_max_iterations (violated_criteria st)
                          expansion_disturbance_tolerance]\<rparr>
              else stage1_while W kernel_length_scale scaled_max_curvature_threshold
                     expansion_disturbance_tolerance maxiter visualize
                     (stage1_iteration W kernel_length_scale scaled_max_curvature_threshold
                        expansion_disturbance_tolerance visualize st))"
  by pat_completeness auto
termination
  by (relation "measure (\<lambda>(W, k, c, tol, maxiter, vis, st). nat (maxiter - niter st))")
     (auto simp: niter_stage1_iteration)

declare stage1_while.simps [simp del]

text \<open>The \<^verbatim>\<open>while\<close> loop of stage 2.\<close>

function stage2_while ::
  "('d, 'r, 'c) wrangler \<Rightarrow> 'd \<Rightarrow> real \<Rightarrow> int \<Rightarrow> bool \<Rightarrow>
     ('d, 'r, 'c) refine_state \<Rightarrow> ('d, 'r, 'c) refine_state" where
  "stage2_while W stage1_density_discr expansion_disturbance_tolerance maxiter visualize st =
     (if iter_violated_criteria st = [] then st
      else let st = st\<lparr>iter_violated_criteria := [], niter := niter st + 1\<rparr>
           in if niter st > maxiter
              then st\<lparr>calls := calls st @
                       [Call_warn_max_iterations (violated_criteria st)
                          expansion_disturbance_tolerance]\<rparr>
              else stage2_while W stage1_density_discr expansion_disturbance_tolerance
                     maxiter visualize
                     (stage2_iteration W stage1_density_discr visualize st))"
  by pat_completeness auto
termination
  by (relation "measure (\<lambda>(W, d, tol, maxiter, vis, st). nat (maxiter - niter st))")
     (auto simp: niter_stage2_iteration)

declare stage2_while.simps [simp del]

text \<open>
  \<^verbatim>\<open>for round in range(force_stage2_uniform_refinement_rounds)\<close>, on the number of
  rounds left: every element is flagged (\<^verbatim>\<open>np.ones(nelements, dtype=np.bool)\<close>).
\<close>

fun uniform_refinement_rounds ::
  "('d, 'r, 'c) wrangler \<Rightarrow> nat \<Rightarrow> ('d, 'r, 'c) refine_state \<Rightarrow> ('d, 'r, 'c) refine_state" where
  "uniform_refinement_rounds W 0 st = st"
| "uniform_refinement_rounds W (Suc n) st =
     (let flags = replicate (mesh_nelements W (current_discr st)) 1;
          r = wrangler_refine W (current_discr st) (current_refiner st) flags;
          conn = snd r
      in uniform_refinement_rounds W n
           (st\<lparr>current_refiner := fst r,
                current_discr := to_discr W conn,
                connections := connections st @ [conn],
                calls := calls st @ [Call_refine (map (\<lambda>f. f \<noteq> 0) flags)]\<rparr>))"

text \<open>The local variables as the loops find them.\<close>

definition initial_state :: "'d \<Rightarrow> 'r \<Rightarrow> ('d, 'r, 'c) refine_state" where
  "initial_state density_discr refiner =
     \<lparr>connections = [], violated_criteria = [], iter_violated_criteria = [''start''],
      niter = 0, current_discr = density_discr, current_refiner = refiner, calls = []\<rparr>"

text \<open>
  The entry points. The discretization that the source looks up in \<^verbatim>\<open>places\<close> is
  passed directly; an argument left at \<^verbatim>\<open>None\<close> is \<open>None\<close>. The
  \<open>_run\<close> functions give the local variables at the \<^verbatim>\<open>return\<close>, whose
  \<open>calls\<close> are the effects of the run; \<open>refine_qbx_stage1\<close> and
  \<open>refine_qbx_stage2\<close> are the returned pairs.
\<close>

definition refine_qbx_stage1_run ::
  "('d, 'r, 'c) wrangler \<Rightarrow> 'd \<Rightarrow> real option \<Rightarrow> real option \<Rightarrow> real option \<Rightarrow>
     int option \<Rightarrow> 'r option \<Rightarrow> bool \<Rightarrow> ('d, 'r, 'c) refine_state" where
  "refine_qbx_stage1_run W density_discr kernel_length_scale scaled_max_curvature_threshold
       expansion_disturbance_tolerance maxiter refiner visualize =
     (let maxiter = (case maxiter of None \<Rightarrow> 10 | Some m \<Rightarrow> m);
          expansion_disturbance_tolerance =
            (case expansion_disturbance_tolerance of None \<Rightarrow> 0.025 | Some x \<Rightarrow> x);
          refiner = (case refiner of
                       None \<Rightarrow> RefinerWithoutAdjacency W density_discr
                     | Some r \<Rightarrow> r)
      in stage1_while W kernel_length_scale scaled_max_curvature_threshold
           expansion_disturbance_tolerance maxiter visualize
           (initial_state density_discr refiner))"

definition refine_qbx_stage1 ::
  "('d, 'r, 'c) wrangler \<Rightarrow> 'd \<Rightarrow> real option \<Rightarrow> real option \<Rightarrow> real option \<Rightarrow>
     int option \<Rightarrow> 'r option \<Rightarrow> bool \<Rightarrow> 'd \<times> ('d, 'c) chained_connection" where
  "refine_qbx_stage1 W density_discr kernel_length_scale scaled_max_curvature_threshold
       expansion_disturbance_tolerance maxiter refiner visualize =
     (let st = refine_qbx_stage1_run W density_discr kernel_length_scale
                 scaled_max_curvature_threshold expansion_disturbance_tolerance maxiter
                 refiner visualize;
          conn = ChainedDiscretizationConnection (connections st) density_discr
      in (current_discr st, conn))"

text \<open>
  Stage 2: \<open>refine_qbx_stage2_loop\<close> gives the local variables when the
  \<^verbatim>\<open>while\<close> loop is left, \<open>refine_qbx_stage2_run\<close> those after the uniform
  rounds that follow it.
\<close>

definition refine_qbx_stage2_loop ::
  "('d, 'r, 'c) wrangler \<Rightarrow> 'd \<Rightarrow> real option \<Rightarrow> int option \<Rightarrow> 'r option \<Rightarrow> bool \<Rightarrow>
     ('d, 'r, 'c) refine_state" where
  "refine_qbx_stage2_loop W stage1_density_discr expansion_disturbance_tolerance maxiter
       refiner visualize =
     (let maxiter = (case maxiter of None \<Rightarrow> 10 | Some m \<Rightarrow> m);
          expansion_disturbance_tolerance =
            (case expansion_disturbance_tolerance of None \<Rightarrow> 0.025 | Some x \<Rightarrow> x);
          refiner = (case refiner of
                       None \<Rightarrow> RefinerWithoutAdjacency W stage1_density_discr
                     | Some r \<Rightarrow> r)
      in stage2_while W stage1_density_discr expansion_disturbance_tolerance maxiter
           visualize (initial_state stage1_density_discr refiner))"

definition refine_qbx_stage2_run ::
  "('d, 'r, 'c) wrangler \<Rightarrow> 'd \<Rightarrow> real option \<Rightarrow> int option \<Rightarrow> int option \<Rightarrow>
     'r option \<Rightarrow> bool \<Rightarrow> ('d, 'r, 'c) refine_state" where
  "refine_qbx_stage2_run W stage1_density_discr expansion_disturbance_tolerance
       force_stage2_uniform_refinement_rounds maxiter refiner visualize =
     (let force_stage2_uniform_refinement_rounds =
            (case force_stage2_uniform_refinement_rounds of None \<Rightarrow> 0 | Some k \<Rightarrow> k)
      in uniform_refinement_rounds W (nat force_stage2_uniform_refinement_rounds)
           (refine_qbx_stage2_loop W stage1_density_discr expansion_disturbance_tolerance
              maxiter refiner visualize))"

definition refine_qbx_stage2 ::
  "('d, 'r, 'c) wrangler \<Rightarrow> 'd \<Rightarrow> real option \<Rightarrow> int option \<Rightarrow> int option \<Rightarrow>
     'r option \<Rightarrow> bool \<Rightarrow> 'd \<times> ('d, 'c) chained_connection" where
  "refine_qbx_stage2 W stage1_density_discr expansion_disturbance_tolerance
       force_stage2_uniform_refinement_rounds maxiter refiner visualize =
     (let st = refine_qbx_stage2_run W stage1_density_discr expansion_disturbance_tolerance
                 force_stage2_uniform_refinement_rounds maxiter refiner visualize;
          conn = ChainedDiscretizationConnection (connections st) stage1_density_discr
      in (current_discr st, conn))"

text \<open>Three kinds of call that the results below count.\<close>

fun is_refine_call :: "call \<Rightarrow> bool" where
  "is_refine_call (Call_refine flags) = True"
| "is_refine_call c = False"

fun is_warning_call :: "call \<Rightarrow> bool" where
  "is_warning_call (Call_warn_max_iterations history tol) = True"
| "is_warning_call c = False"

fun is_criterion_check :: "call \<Rightarrow> bool" where
  "is_criterion_check Call_check_kernel_length_scale = True"
| "is_criterion_check Call_check_scaled_max_curv = True"
| "is_criterion_check Call_check_expansion_disks_undisturbed_by_sources = True"
| "is_criterion_check Call_check_sufficient_source_quadrature_resolution = True"
| "is_criterion_check c = False"

section \<open>An example geometry\<close>

text \<open>
  A line of \<open>d\<close> panels, used to instantiate the results below. Panel \<open>i\<close> has one
  source at \<open>4 i\<close> and one center at \<open>4 i + 1\<close>; one leaf box holds all particles
  and every area query finds it. A discretization is its number of elements, refining
  splits each flagged element in two, and a connection is the pair of the old and the
  new discretization. The geometric quantities are chosen so that the criteria are
  violated on the coarse meshes only.
\<close>

definition example_bsearch :: "nat list \<Rightarrow> nat \<Rightarrow> nat \<Rightarrow> nat" where
  "example_bsearch starts len val = length (filter (\<lambda>s. s \<le> val) (take len starts)) - 1"

definition example_tree :: "nat \<Rightarrow> tree" where
  "example_tree d =
     \<lparr>nqbxpanels = d, nqbxsources = d, nqbxcenters = d,
      box_to_qbx_source_starts = [0, d], box_to_qbx_source_lists = [0..<d],
      box_to_qbx_center_starts = [0, d], box_to_qbx_center_lists = [0..<d],
      qbx_panel_to_source_starts = [0..<d + 1], qbx_panel_to_center_starts = [0..<d + 1],
      source_particle = (\<lambda>i. [4 * real i]),
      center_particle = (\<lambda>i. [4 * real i + 1]),
      leaves_in_ball = (\<lambda>c r. [0])\<rparr>"

definition example_wrangler :: "(nat, nat, nat \<times> nat) wrangler" where
  "example_wrangler =
     \<lparr>bsearch = example_bsearch,
      distance = (\<lambda>a b. \<bar>a ! 0 - b ! 0\<bar>),
      mesh_nelements = (\<lambda>d. d),
      quad_resolution = (\<lambda>d. replicate d (if d < 2 then 1 else 0)),
      scaled_max_curvature = (\<lambda>d. replicate d (if d < 2 then 3 else 0)),
      expansion_radii = (\<lambda>d. if d = 2 then [2, 1] else replicate d 1),
      source_danger_zone_radii = (\<lambda>d. replicate d (if d < 3 then 1 else 1 / 2)),
      build_tree = example_tree,
      build_tree_stage2 = (\<lambda>d1 d2. example_tree d2),
      refiner_refine = (\<lambda>r flags. r + length (filter (\<lambda>f. f) flags)),
      make_refinement_connection = (\<lambda>r d. (d, r)),
      to_discr = snd,
      RefinerWithoutAdjacency = (\<lambda>d. d)\<rparr>"

text \<open>
  Whether a call set a flag that was clear: some entry is 0 before and 1 after.
\<close>

definition newly_set :: "int list \<Rightarrow> int list \<Rightarrow> bool" where
  "newly_set before after = (\<exists>e < length before. before ! e = 0 \<and> after ! e = 1)"

text \<open>
  The checks of an iteration as data, so that a sequence of checks on the shared flags
  can be run in any order: each checker takes the flags and returns them as its check
  left them.
\<close>

datatype ('d, 'r, 'c) checker =
    Threshold_checker "real list" real
  | Expansion_disk_checker "('d, 'r, 'c) wrangler" 'd tree real
  | Quadrature_resolution_checker "('d, 'r, 'c) wrangler" 'd tree

fun run_checker :: "('d, 'r, 'c) checker \<Rightarrow> int list \<Rightarrow> int list" where
  "run_checker (Threshold_checker element_property threshold) refine_flags =
     snd (check_element_prop_threshold element_property threshold refine_flags)"
| "run_checker (Expansion_disk_checker W d t tol) refine_flags =
     snd (check_expansion_disks_undisturbed_by_sources W d t tol refine_flags)"
| "run_checker (Quadrature_resolution_checker W d t) refine_flags =
     snd (check_sufficient_source_quadrature_resolution W d t refine_flags)"

section \<open>What the kernels write\<close>

text \<open>
  Every write of the three kernels has one shape: when a condition holds, the flag of
  one panel is set to 1 and the signal is raised.
\<close>

definition flag_if :: "bool \<Rightarrow> nat \<Rightarrow> kernel_out \<Rightarrow> kernel_out" where
  "flag_if hit panel out = (if hit then ((fst out)[panel := 1], 1) else out)"

text \<open>
  Condition 1 in the words of the specification: the panel that owns an expansion center,
  and whether some source in the center's candidate boxes lies within
  \<open>(1 - tolerance) * radius\<close> of it, the bound included.
\<close>

definition c1_center_panel :: "('d, 'r, 'c) wrangler \<Rightarrow> tree \<Rightarrow> nat \<Rightarrow> nat" where
  "c1_center_panel W t icenter =
     bsearch W (qbx_panel_to_center_starts t) (nqbxpanels t + 1) icenter"

definition c1_has_close_source ::
  "('d, 'r, 'c) wrangler \<Rightarrow> tree \<Rightarrow> real list \<Rightarrow> real \<Rightarrow> nat \<Rightarrow> bool" where
  "c1_has_close_source W t radii tol icenter =
     (\<exists>leaf \<in> set (leaves_in_ball t (center_particle t icenter) ((1 - tol) * radii ! icenter)).
        \<exists>source_idx \<in> set [box_to_qbx_source_starts t ! leaf ..<
                               box_to_qbx_source_starts t ! (leaf + 1)].
          distance W (center_particle t icenter)
              (source_particle t (box_to_qbx_source_lists t ! source_idx))
            \<le> (1 - tol) * radii ! icenter)"

lemma flag_if_twice:
  "flag_if a p (flag_if b p out) = flag_if (a \<or> b) p out"
  by (simp add: flag_if_def)

lemma c1_leaf_sources_flag_if:
  "c1_leaf_sources W t radii tol icenter bc idxs out =
     flag_if (\<exists>source_idx \<in> set idxs.
                distance W bc (source_particle t (box_to_qbx_source_lists t ! source_idx))
                  \<le> (1 - tol) * radii ! icenter)
       (c1_center_panel W t icenter) out"
  by (induction idxs) (auto simp: flag_if_def c1_center_panel_def Let_def)

lemma fold_flag_if_same_panel:
  "fold (\<lambda>x. flag_if (h x) p) xs out = flag_if (\<exists>x \<in> set xs. h x) p out"
proof (induction xs arbitrary: out)
  case Nil
  show ?case by (simp add: flag_if_def)
next
  case (Cons x xs)
  have "(\<exists>y \<in> set xs. h y) \<or> h x \<longleftrightarrow> (\<exists>y \<in> set (x # xs). h y)"
    by auto
  then show ?case by (simp only: fold_Cons comp_apply Cons.IH flag_if_twice)
qed

lemma c1_work_item_flag_if:
  "c1_work_item W t radii tol icenter out =
     flag_if (c1_has_close_source W t radii tol icenter) (c1_center_panel W t icenter) out"
proof -
  have "c1_leaf_found_op W t radii tol icenter (center_particle t icenter) =
        (\<lambda>leaf. flag_if (\<exists>source_idx \<in> set [box_to_qbx_source_starts t ! leaf ..<
                               box_to_qbx_source_starts t ! (leaf + 1)].
          distance W (center_particle t icenter)
              (source_particle t (box_to_qbx_source_lists t ! source_idx))
            \<le> (1 - tol) * radii ! icenter) (c1_center_panel W t icenter))"
    by (intro ext) (simp only: c1_leaf_found_op_def c1_leaf_sources_flag_if)
  then show ?thesis
    by (simp only: c1_work_item_def Let_def fold_flag_if_same_panel c1_has_close_source_def)
qed

lemma fold_flag_if_length:
  "length (fst (fold (\<lambda>i. flag_if (hit i) (panel i)) xs out)) = length (fst out)"
  by (induction xs arbitrary: out) (simp_all add: flag_if_def)

lemma fold_flag_if_snd:
  "snd (fold (\<lambda>i. flag_if (hit i) (panel i)) xs out) =
     (if \<exists>i \<in> set xs. hit i then 1 else snd out)"
  by (induction xs arbitrary: out) (auto simp: flag_if_def)

lemma flag_if_nth:
  "p < length (fst out) \<Longrightarrow>
   fst (flag_if h q out) ! p = (if h \<and> q = p then 1 else fst out ! p)"
  by (simp add: flag_if_def nth_list_update)

lemma flag_if_length: "length (fst (flag_if h q out)) = length (fst out)"
  by (simp add: flag_if_def)

lemma fold_flag_if_nth:
  "p < length (fst out) \<Longrightarrow>
   fst (fold (\<lambda>i. flag_if (hit i) (panel i)) xs out) ! p =
     (if \<exists>i \<in> set xs. hit i \<and> panel i = p then 1 else fst out ! p)"
proof (induction xs arbitrary: out)
  case Nil
  show ?case by simp
next
  case (Cons x xs)
  let ?out = "flag_if (hit x) (panel x) out"
  have len: "p < length (fst ?out)"
    using Cons.prems by (simp add: flag_if_length)
  have "fst (fold (\<lambda>i. flag_if (hit i) (panel i)) (x # xs) out) ! p =
        (if \<exists>i \<in> set xs. hit i \<and> panel i = p then 1 else fst ?out ! p)"
    using Cons.IH[OF len] by simp
  also have "\<dots> = (if \<exists>i \<in> set (x # xs). hit i \<and> panel i = p then 1 else fst out ! p)"
    using Cons.prems by (auto simp: flag_if_nth)
  finally show ?case .
qed


text \<open>
  Condition 2 likewise, with the roles swapped: the panel that owns a source, and
  whether some center in the source's candidate boxes lies within the panel's radius of
  it, the bound included.
\<close>

definition c2_my_panel :: "('d, 'r, 'c) wrangler \<Rightarrow> tree \<Rightarrow> nat \<Rightarrow> nat" where
  "c2_my_panel W t i = bsearch W (qbx_panel_to_source_starts t) (nqbxpanels t + 1) i"

definition c2_has_close_center ::
  "('d, 'r, 'c) wrangler \<Rightarrow> tree \<Rightarrow> real list \<Rightarrow> nat \<Rightarrow> bool" where
  "c2_has_close_center W t radii i =
     (\<exists>leaf \<in> set (leaves_in_ball t (source_particle t i) (radii ! c2_my_panel W t i)).
        \<exists>center_idx \<in> set [box_to_qbx_center_starts t ! leaf ..<
                               box_to_qbx_center_starts t ! (leaf + 1)].
          distance W (source_particle t i)
              (center_particle t (box_to_qbx_center_lists t ! center_idx))
            \<le> radii ! c2_my_panel W t i)"

lemma c2_leaf_centers_flag_if:
  "c2_leaf_centers W t radii my_panel bc idxs out =
     flag_if (\<exists>center_idx \<in> set idxs.
                distance W bc (center_particle t (box_to_qbx_center_lists t ! center_idx))
                  \<le> radii ! my_panel)
       my_panel out"
  by (induction idxs) (auto simp: flag_if_def Let_def)

lemma c2_work_item_flag_if:
  "c2_work_item W t radii i out =
     flag_if (c2_has_close_center W t radii i) (c2_my_panel W t i) out"
proof -
  have "c2_leaf_found_op W t radii (c2_my_panel W t i) (source_particle t i) =
        (\<lambda>leaf. flag_if (\<exists>center_idx \<in> set [box_to_qbx_center_starts t ! leaf ..<
                               box_to_qbx_center_starts t ! (leaf + 1)].
          distance W (source_particle t i)
              (center_particle t (box_to_qbx_center_lists t ! center_idx))
            \<le> radii ! c2_my_panel W t i) (c2_my_panel W t i))"
    by (intro ext) (simp only: c2_leaf_found_op_def c2_leaf_centers_flag_if)
  then show ?thesis
    by (simp only: c2_work_item_def Let_def fold_flag_if_same_panel c2_has_close_center_def
        c2_my_panel_def)
qed

lemma threshold_work_item_flag_if:
  "threshold_work_item P T e out = flag_if (P ! e > T) e out"
  by (simp add: threshold_work_item_def flag_if_def)

lemma c1_checker_fold:
  "expansion_disk_undisturbed_by_sources_checker W t radii tol out =
     fold (\<lambda>i. flag_if (c1_has_close_source W t radii tol i) (c1_center_panel W t i))
       [0..<nqbxcenters t] out"
proof -
  have "c1_work_item W t radii tol =
        (\<lambda>i. flag_if (c1_has_close_source W t radii tol i) (c1_center_panel W t i))"
    by (intro ext) (rule c1_work_item_flag_if)
  then show ?thesis by (simp only: expansion_disk_undisturbed_by_sources_checker_def)
qed

lemma c2_checker_fold:
  "sufficient_source_quadrature_resolution_checker W t radii out =
     fold (\<lambda>i. flag_if (c2_has_close_center W t radii i) (c2_my_panel W t i))
       [0..<nqbxsources t] out"
proof -
  have "c2_work_item W t radii =
        (\<lambda>i. flag_if (c2_has_close_center W t radii i) (c2_my_panel W t i))"
    by (intro ext) (rule c2_work_item_flag_if)
  then show ?thesis by (simp only: sufficient_source_quadrature_resolution_checker_def)
qed

lemma threshold_checker_fold:
  "element_prop_threshold_checker P T out =
     fold (\<lambda>e. flag_if (P ! e > T) e) [0..<length (fst out)] out"
proof -
  have "threshold_work_item P T = (\<lambda>e. flag_if (P ! e > T) e)"
    by (intro ext) (rule threshold_work_item_flag_if)
  then show ?thesis by (simp only: element_prop_threshold_checker_def)
qed

text \<open>What the three checks return, and the flags they leave.\<close>

lemma check_threshold_length:
  "length (snd (check_element_prop_threshold P T flags)) = length flags"
  by (simp add: check_element_prop_threshold_def Let_def threshold_checker_fold
      fold_flag_if_length)

lemma check_threshold_nth:
  "e < length flags \<Longrightarrow>
   snd (check_element_prop_threshold P T flags) ! e = (if P ! e > T then 1 else flags ! e)"
  by (simp add: check_element_prop_threshold_def Let_def threshold_checker_fold
      fold_flag_if_nth)

lemma check_threshold_found:
  "fst (check_element_prop_threshold P T flags) \<longleftrightarrow> (\<exists>e < length flags. P ! e > T)"
  by (auto simp: check_element_prop_threshold_def Let_def threshold_checker_fold
      fold_flag_if_snd)

lemma check_disks_length:
  "length (snd (check_expansion_disks_undisturbed_by_sources W d t tol flags)) = length flags"
  by (simp add: check_expansion_disks_undisturbed_by_sources_def Let_def c1_checker_fold
      fold_flag_if_length)

lemma check_disks_nth:
  "p < length flags \<Longrightarrow>
   snd (check_expansion_disks_undisturbed_by_sources W d t tol flags) ! p =
     (if \<exists>icenter < nqbxcenters t.
           c1_has_close_source W t (expansion_radii W d) tol icenter \<and>
           c1_center_panel W t icenter = p
      then 1 else flags ! p)"
  by (auto simp: check_expansion_disks_undisturbed_by_sources_def Let_def c1_checker_fold
      fold_flag_if_nth)

lemma check_disks_found:
  "fst (check_expansion_disks_undisturbed_by_sources W d t tol flags) \<longleftrightarrow>
     (\<exists>icenter < nqbxcenters t. c1_has_close_source W t (expansion_radii W d) tol icenter)"
  by (auto simp: check_expansion_disks_undisturbed_by_sources_def Let_def c1_checker_fold
      fold_flag_if_snd)

lemma check_quad_length:
  "length (snd (check_sufficient_source_quadrature_resolution W d t flags)) = length flags"
  by (simp add: check_sufficient_source_quadrature_resolution_def Let_def c2_checker_fold
      fold_flag_if_length)

lemma check_quad_nth:
  "p < length flags \<Longrightarrow>
   snd (check_sufficient_source_quadrature_resolution W d t flags) ! p =
     (if \<exists>i < nqbxsources t.
           c2_has_close_center W t (source_danger_zone_radii W d) i \<and>
           c2_my_panel W t i = p
      then 1 else flags ! p)"
  by (auto simp: check_sufficient_source_quadrature_resolution_def Let_def c2_checker_fold
      fold_flag_if_nth)

lemma check_quad_found:
  "fst (check_sufficient_source_quadrature_resolution W d t flags) \<longleftrightarrow>
     (\<exists>i < nqbxsources t. c2_has_close_center W t (source_danger_zone_radii W d) i)"
  by (auto simp: check_sufficient_source_quadrature_resolution_def Let_def c2_checker_fold
      fold_flag_if_snd)

lemma flag_if_commute:
  "flag_if a p (flag_if b q out) = flag_if b q (flag_if a p out)"
  by (cases "p = q") (simp_all add: flag_if_def list_update_swap)

lemma threshold_work_items_any_order:
  assumes "mset order = mset [0..<length flags]"
  shows "fold (threshold_work_item P T) order (flags, 0) =
         element_prop_threshold_checker P T (flags, 0)"
proof -
  have "fold (threshold_work_item P T) order = fold (threshold_work_item P T) [0..<length flags]"
    by (rule fold_multiset_equiv[OF _ assms])
       (simp add: fun_eq_iff threshold_work_item_flag_if flag_if_commute)
  then show ?thesis by (simp add: element_prop_threshold_checker_def)
qed

section \<open>The threshold checker\<close>

text \<open>
  C4. Given a property array and a threshold, \<open>check_element_prop_threshold\<close>
  leaves the flags at their length, sets the flag of every element whose property is
  strictly above the threshold to 1 and keeps every other flag as it was. The result does
  not depend on the order in which the kernel's work items run, and running the check
  again on the flags it returned gives the same flags and the same answer. (The check
  is a function of its three inputs, so two runs from the same inputs agree.)
\<close>

theorem check_element_prop_threshold_sets_exactly_over_threshold:
  assumes "length element_property = length refine_flags"
  shows "length (snd (check_element_prop_threshold element_property threshold refine_flags))
           = length refine_flags \<and>
         (\<forall>e < length refine_flags.
            snd (check_element_prop_threshold element_property threshold refine_flags) ! e =
              (if element_property ! e > threshold then 1 else refine_flags ! e)) \<and>
         (\<forall>order. mset order = mset [0..<length refine_flags] \<longrightarrow>
            fold (threshold_work_item element_property threshold) order (refine_flags, 0) =
              element_prop_threshold_checker element_property threshold (refine_flags, 0)) \<and>
         check_element_prop_threshold element_property threshold
             (snd (check_element_prop_threshold element_property threshold refine_flags)) =
           check_element_prop_threshold element_property threshold refine_flags"
proof (intro conjI allI impI)
  let ?r = "check_element_prop_threshold element_property threshold refine_flags"
  show "length (snd ?r) = length refine_flags"
    by (rule check_threshold_length)
  show "snd ?r ! e = (if element_property ! e > threshold then 1 else refine_flags ! e)"
    if "e < length refine_flags" for e
    using that by (rule check_threshold_nth)
  show "fold (threshold_work_item element_property threshold) order (refine_flags, 0) =
        element_prop_threshold_checker element_property threshold (refine_flags, 0)"
    if "mset order = mset [0..<length refine_flags]" for order
    using that by (rule threshold_work_items_any_order)
  have "snd (check_element_prop_threshold element_property threshold (snd ?r)) = snd ?r"
    by (rule nth_equalityI) (simp_all add: check_threshold_length check_threshold_nth)
  moreover have "fst (check_element_prop_threshold element_property threshold (snd ?r)) = fst ?r"
    by (simp add: check_threshold_found check_threshold_length)
  ultimately show "check_element_prop_threshold element_property threshold (snd ?r) = ?r"
    by (simp add: prod_eq_iff)
qed

text \<open>
  An instance: properties 3, 1, 5 against the threshold 2, from cleared flags, from the
  flags of the first run, and with the work items in the order 2, 0, 1.
\<close>

theorem check_element_prop_threshold_example:
  "check_element_prop_threshold [3, 1, 5] 2 [0, 0, 0] = (True, [1, 0, 1]) \<and>
   check_element_prop_threshold [3, 1, 5] 2 [1, 0, 1] = (True, [1, 0, 1]) \<and>
   fold (threshold_work_item [3, 1, 5] 2) [2, 0, 1] ([0, 0, 0], 0) = ([1, 0, 1], 1)"
proof -
  have len: "length [3, 1, 5 :: real] = length [0, 0, 0 :: int]" by simp
  have ev: "check_element_prop_threshold [3, 1, 5] 2 [0, 0, 0] = (True, [1, 0, 1])"
    by (simp add: check_element_prop_threshold_def element_prop_threshold_checker_def
        threshold_work_item_def Let_def)
  have ms: "mset [2, 0, 1 :: nat] = mset [0..<length [0, 0, 0 :: int]]"
    by (simp add: upt_rec)
  note inst = check_element_prop_threshold_sets_exactly_over_threshold[OF len, of 2]
  from inst have "check_element_prop_threshold [3, 1, 5] 2
        (snd (check_element_prop_threshold [3, 1, 5] 2 [0, 0, 0])) =
      check_element_prop_threshold [3, 1, 5] 2 [0, 0, 0]"
    by blast
  then have twice: "check_element_prop_threshold [3, 1, 5] 2 [1, 0, 1] = (True, [1, 0, 1])"
    by (simp add: ev)
  from inst ms have "fold (threshold_work_item [3, 1, 5] 2) [2, 0, 1] ([0, 0, 0], 0) =
      element_prop_threshold_checker [3, 1, 5] 2 ([0, 0, 0], 0)"
    by blast
  moreover have "element_prop_threshold_checker [3, 1, 5] 2 ([0, 0, 0], 0) = ([1, 0, 1], 1)"
    by (simp add: element_prop_threshold_checker_def threshold_work_item_def Let_def)
  ultimately show ?thesis using ev twice by simp
qed


section \<open>The two area-query checkers\<close>

text \<open>
  C2. In the Condition-1 kernel the work item of an expansion center flags the panel
  that owns the center exactly when some source in the center's candidate boxes is at a
  distance of at most \<open>(1 - tolerance) * radius\<close> from it, the comparison being
  \<open>\<le>\<close>. For the check as a whole, a panel's flag is 1 afterwards exactly when it
  was 1 before or one of the panel's centers has such a source; and a source exactly at
  distance \<open>(1 - tolerance) * radius\<close> makes the owning panel flagged. The Condition-2
  kernel does the same with sources and centers swapped, against the radius of the
  source's panel, again with \<open>\<le>\<close>.
\<close>

theorem condition_checkers_flag_within_bound:
  "c1_work_item W t radii tol icenter out =
     (if c1_has_close_source W t radii tol icenter
      then ((fst out)[c1_center_panel W t icenter := 1], 1) else out) \<and>
   (\<forall>p < length flags.
      snd (check_expansion_disks_undisturbed_by_sources W d t tol flags) ! p = 1 \<longleftrightarrow>
        flags ! p = 1 \<or>
        (\<exists>icenter < nqbxcenters t. c1_center_panel W t icenter = p \<and>
           c1_has_close_source W t (expansion_radii W d) tol icenter)) \<and>
   (\<forall>icenter < nqbxcenters t.
      \<forall>leaf \<in> set (leaves_in_ball t (center_particle t icenter)
                      ((1 - tol) * expansion_radii W d ! icenter)).
      \<forall>source_idx \<in> set [box_to_qbx_source_starts t ! leaf ..<
                             box_to_qbx_source_starts t ! (leaf + 1)].
        distance W (center_particle t icenter)
            (source_particle t (box_to_qbx_source_lists t ! source_idx))
          = (1 - tol) * expansion_radii W d ! icenter \<longrightarrow>
        c1_center_panel W t icenter < length flags \<longrightarrow>
        snd (check_expansion_disks_undisturbed_by_sources W d t tol flags)
          ! c1_center_panel W t icenter = 1) \<and>
   c2_work_item W t radii i out =
     (if c2_has_close_center W t radii i
      then ((fst out)[c2_my_panel W t i := 1], 1) else out) \<and>
   (\<forall>p < length flags.
      snd (check_sufficient_source_quadrature_resolution W d t flags) ! p = 1 \<longleftrightarrow>
        flags ! p = 1 \<or>
        (\<exists>i < nqbxsources t. c2_my_panel W t i = p \<and>
           c2_has_close_center W t (source_danger_zone_radii W d) i)) \<and>
   (\<forall>i < nqbxsources t.
      \<forall>leaf \<in> set (leaves_in_ball t (source_particle t i)
                      (source_danger_zone_radii W d ! c2_my_panel W t i)).
      \<forall>center_idx \<in> set [box_to_qbx_center_starts t ! leaf ..<
                             box_to_qbx_center_starts t ! (leaf + 1)].
        distance W (source_particle t i)
            (center_particle t (box_to_qbx_center_lists t ! center_idx))
          = source_danger_zone_radii W d ! c2_my_panel W t i \<longrightarrow>
        c2_my_panel W t i < length flags \<longrightarrow>
        snd (check_sufficient_source_quadrature_resolution W d t flags)
          ! c2_my_panel W t i = 1)"
proof (intro conjI allI impI ballI)
  show "c1_work_item W t radii tol icenter out =
     (if c1_has_close_source W t radii tol icenter
      then ((fst out)[c1_center_panel W t icenter := 1], 1) else out)"
    by (simp add: c1_work_item_flag_if flag_if_def)
  show "c2_work_item W t radii i out =
     (if c2_has_close_center W t radii i
      then ((fst out)[c2_my_panel W t i := 1], 1) else out)"
    by (simp add: c2_work_item_flag_if flag_if_def)
next
  fix p assume "p < length flags"
  then show "snd (check_expansion_disks_undisturbed_by_sources W d t tol flags) ! p = 1 \<longleftrightarrow>
        flags ! p = 1 \<or>
        (\<exists>icenter < nqbxcenters t. c1_center_panel W t icenter = p \<and>
           c1_has_close_source W t (expansion_radii W d) tol icenter)"
    by (auto simp: check_disks_nth)
next
  fix p assume "p < length flags"
  then show "snd (check_sufficient_source_quadrature_resolution W d t flags) ! p = 1 \<longleftrightarrow>
        flags ! p = 1 \<or>
        (\<exists>i < nqbxsources t. c2_my_panel W t i = p \<and>
           c2_has_close_center W t (source_danger_zone_radii W d) i)"
    by (auto simp: check_quad_nth)
next
  fix icenter leaf source_idx
  assume c: "icenter < nqbxcenters t"
    and l: "leaf \<in> set (leaves_in_ball t (center_particle t icenter)
                      ((1 - tol) * expansion_radii W d ! icenter))"
    and s: "source_idx \<in> set [box_to_qbx_source_starts t ! leaf ..<
                             box_to_qbx_source_starts t ! (leaf + 1)]"
    and eq: "distance W (center_particle t icenter)
            (source_particle t (box_to_qbx_source_lists t ! source_idx))
          = (1 - tol) * expansion_radii W d ! icenter"
    and len: "c1_center_panel W t icenter < length flags"
  from eq have "distance W (center_particle t icenter)
            (source_particle t (box_to_qbx_source_lists t ! source_idx))
          \<le> (1 - tol) * expansion_radii W d ! icenter"
    by simp
  with l s have "c1_has_close_source W t (expansion_radii W d) tol icenter"
    unfolding c1_has_close_source_def by blast
  with c len show "snd (check_expansion_disks_undisturbed_by_sources W d t tol flags)
          ! c1_center_panel W t icenter = 1"
    by (auto simp: check_disks_nth)
next
  fix i leaf center_idx
  assume c: "i < nqbxsources t"
    and l: "leaf \<in> set (leaves_in_ball t (source_particle t i)
                      (source_danger_zone_radii W d ! c2_my_panel W t i))"
    and s: "center_idx \<in> set [box_to_qbx_center_starts t ! leaf ..<
                             box_to_qbx_center_starts t ! (leaf + 1)]"
    and eq: "distance W (source_particle t i)
            (center_particle t (box_to_qbx_center_lists t ! center_idx))
          = source_danger_zone_radii W d ! c2_my_panel W t i"
    and len: "c2_my_panel W t i < length flags"
  from eq have "distance W (source_particle t i)
            (center_particle t (box_to_qbx_center_lists t ! center_idx))
          \<le> source_danger_zone_radii W d ! c2_my_panel W t i"
    by simp
  with l s have "c2_has_close_center W t (source_danger_zone_radii W d) i"
    unfolding c2_has_close_center_def by blast
  with c len show "snd (check_sufficient_source_quadrature_resolution W d t flags)
          ! c2_my_panel W t i = 1"
    by (auto simp: check_quad_nth)
qed

text \<open>
  An instance on the line of two panels with tolerance 1/2: the source of panel 0 lies
  exactly on the bound of its center (distance 1, radius 2) and the panel is flagged;
  the center of panel 1 has radius 1 and its panel is not.
\<close>

theorem condition_checkers_example:
  "distance example_wrangler (center_particle (example_tree 2) 0)
       (source_particle (example_tree 2) 0)
     = (1 - 1 / 2) * expansion_radii example_wrangler 2 ! 0 \<and>
   snd (check_expansion_disks_undisturbed_by_sources example_wrangler 2 (example_tree 2)
          (1 / 2) [0, 0]) ! 0 = 1 \<and>
   snd (check_expansion_disks_undisturbed_by_sources example_wrangler 2 (example_tree 2)
          (1 / 2) [0, 0]) ! 1 = 0"
proof -
  note inst = condition_checkers_flag_within_bound[where W = example_wrangler
      and t = "example_tree 2" and tol = "1 / 2" and d = 2 and flags = "[0, 0]"]
  have tie: "distance example_wrangler (center_particle (example_tree 2) 0)
       (source_particle (example_tree 2) (box_to_qbx_source_lists (example_tree 2) ! 0))
     = (1 - 1 / 2) * expansion_radii example_wrangler 2 ! 0"
    by (simp add: example_wrangler_def example_tree_def upt_rec)
  have c: "(0::nat) < nqbxcenters (example_tree 2)"
    by (simp add: example_tree_def)
  have l: "(0::nat) \<in> set (leaves_in_ball (example_tree 2) (center_particle (example_tree 2) 0)
                      ((1 - 1 / 2) * expansion_radii example_wrangler 2 ! 0))"
    by (simp add: example_tree_def)
  have s: "(0::nat) \<in> set [box_to_qbx_source_starts (example_tree 2) ! 0 ..<
                             box_to_qbx_source_starts (example_tree 2) ! (0 + 1)]"
    by (simp add: example_tree_def)
  have p: "c1_center_panel example_wrangler (example_tree 2) 0 = 0"
    by (simp add: c1_center_panel_def example_wrangler_def example_tree_def upt_rec
        example_bsearch_def)
  from inst c l s tie have "c1_center_panel example_wrangler (example_tree 2) 0
        < length [0, 0 :: int] \<longrightarrow>
      snd (check_expansion_disks_undisturbed_by_sources example_wrangler 2 (example_tree 2)
          (1 / 2) [0, 0]) ! c1_center_panel example_wrangler (example_tree 2) 0 = 1"
    by blast
  then have flagged: "snd (check_expansion_disks_undisturbed_by_sources example_wrangler 2
      (example_tree 2) (1 / 2) [0, 0]) ! 0 = 1"
    by (simp add: p)
  have far: "\<not> c1_has_close_source example_wrangler (example_tree 2)
      (expansion_radii example_wrangler 2) (1 / 2) 1"
    by (simp add: c1_has_close_source_def example_wrangler_def example_tree_def upt_rec)
  have p1: "c1_center_panel example_wrangler (example_tree 2) 1 = 1"
    by (simp add: c1_center_panel_def example_wrangler_def example_tree_def upt_rec
        example_bsearch_def)
  from inst have "\<forall>p < length [0, 0 :: int].
      snd (check_expansion_disks_undisturbed_by_sources example_wrangler 2 (example_tree 2)
          (1 / 2) [0, 0]) ! p = 1 \<longleftrightarrow>
        [0, 0 :: int] ! p = 1 \<or>
        (\<exists>icenter < nqbxcenters (example_tree 2).
           c1_center_panel example_wrangler (example_tree 2) icenter = p \<and>
           c1_has_close_source example_wrangler (example_tree 2)
             (expansion_radii example_wrangler 2) (1 / 2) icenter)"
    by blast
  then have "snd (check_expansion_disks_undisturbed_by_sources example_wrangler 2
      (example_tree 2) (1 / 2) [0, 0]) ! 1 = 1 \<longleftrightarrow>
        (\<exists>icenter < nqbxcenters (example_tree 2).
           c1_center_panel example_wrangler (example_tree 2) icenter = 1 \<and>
           c1_has_close_source example_wrangler (example_tree 2)
             (expansion_radii example_wrangler 2) (1 / 2) icenter)"
    by simp
  moreover have "\<not> (\<exists>icenter < nqbxcenters (example_tree 2).
           c1_center_panel example_wrangler (example_tree 2) icenter = 1 \<and>
           c1_has_close_source example_wrangler (example_tree 2)
             (expansion_radii example_wrangler 2) (1 / 2) icenter)"
  proof
    assume "\<exists>icenter < nqbxcenters (example_tree 2).
           c1_center_panel example_wrangler (example_tree 2) icenter = 1 \<and>
           c1_has_close_source example_wrangler (example_tree 2)
             (expansion_radii example_wrangler 2) (1 / 2) icenter"
    then obtain ic where ic: "ic < 2"
      "c1_center_panel example_wrangler (example_tree 2) ic = 1"
      "c1_has_close_source example_wrangler (example_tree 2)
             (expansion_radii example_wrangler 2) (1 / 2) ic"
      by (auto simp: example_tree_def)
    from ic(1) have "ic = 0 \<or> ic = 1" by arith
    with ic(2,3) p far show False by auto
  qed
  ultimately have "snd (check_expansion_disks_undisturbed_by_sources example_wrangler 2
      (example_tree 2) (1 / 2) [0, 0]) ! 1 \<noteq> 1"
    by simp
  moreover have "snd (check_expansion_disks_undisturbed_by_sources example_wrangler 2
      (example_tree 2) (1 / 2) [0, 0]) ! 1 = 0"
    by (simp add: check_expansion_disks_undisturbed_by_sources_def
        expansion_disk_undisturbed_by_sources_checker_def c1_work_item_def
        c1_leaf_found_op_def example_wrangler_def example_tree_def upt_rec
        example_bsearch_def Let_def)
  ultimately show ?thesis using flagged tie by (simp add: example_tree_def)
qed

section \<open>The signal a check returns\<close>

text \<open>
  C5, as stated, fails: on flags that are already set, the threshold check returns true
  although no flag that was 0 is 1 afterwards. (Stage 1 calls the curvature check on the
  flags the kernel-length-scale check has written.)
\<close>

theorem check_signal_without_newly_set_flag:
  "\<not> (fst (check_element_prop_threshold [2] 1 [1]) \<longleftrightarrow>
        newly_set [1] (snd (check_element_prop_threshold [2] 1 [1])))"
  by (simp add: check_element_prop_threshold_def element_prop_threshold_checker_def
      threshold_work_item_def newly_set_def Let_def)


text \<open>
  C5, amended. Each check returns true exactly when its kernel wrote a 1 somewhere:
  some element's property is above the threshold, some center has a close source, some
  source has a close center, whether or not the flag written was already 1. So a newly
  set flag implies a true signal; and on flags that are all 0 (with every owning panel
  inside the flags, for the two area-query checks) the signal is true exactly when some
  flag was newly set.
\<close>

theorem check_signal_reports_a_write:
  "(fst (check_element_prop_threshold element_property threshold flags) \<longleftrightarrow>
      (\<exists>e < length flags. element_property ! e > threshold)) \<and>
   (fst (check_expansion_disks_undisturbed_by_sources W d t tol flags) \<longleftrightarrow>
      (\<exists>icenter < nqbxcenters t.
         c1_has_close_source W t (expansion_radii W d) tol icenter)) \<and>
   (fst (check_sufficient_source_quadrature_resolution W d t flags) \<longleftrightarrow>
      (\<exists>i < nqbxsources t. c2_has_close_center W t (source_danger_zone_radii W d) i)) \<and>
   (newly_set flags (snd (check_element_prop_threshold element_property threshold flags))
      \<longrightarrow> fst (check_element_prop_threshold element_property threshold flags)) \<and>
   (newly_set flags (snd (check_expansion_disks_undisturbed_by_sources W d t tol flags))
      \<longrightarrow> fst (check_expansion_disks_undisturbed_by_sources W d t tol flags)) \<and>
   (newly_set flags (snd (check_sufficient_source_quadrature_resolution W d t flags))
      \<longrightarrow> fst (check_sufficient_source_quadrature_resolution W d t flags)) \<and>
   ((\<forall>e < length flags. flags ! e = 0) \<longrightarrow>
      (fst (check_element_prop_threshold element_property threshold flags) \<longleftrightarrow>
       newly_set flags
         (snd (check_element_prop_threshold element_property threshold flags)))) \<and>
   ((\<forall>e < length flags. flags ! e = 0) \<and>
    (\<forall>icenter < nqbxcenters t. c1_center_panel W t icenter < length flags) \<longrightarrow>
      (fst (check_expansion_disks_undisturbed_by_sources W d t tol flags) \<longleftrightarrow>
       newly_set flags
         (snd (check_expansion_disks_undisturbed_by_sources W d t tol flags)))) \<and>
   ((\<forall>e < length flags. flags ! e = 0) \<and>
    (\<forall>i < nqbxsources t. c2_my_panel W t i < length flags) \<longrightarrow>
      (fst (check_sufficient_source_quadrature_resolution W d t flags) \<longleftrightarrow>
       newly_set flags
         (snd (check_sufficient_source_quadrature_resolution W d t flags))))"
proof (intro conjI)
  show "fst (check_element_prop_threshold element_property threshold flags) \<longleftrightarrow>
      (\<exists>e < length flags. element_property ! e > threshold)"
    by (rule check_threshold_found)
  show "fst (check_expansion_disks_undisturbed_by_sources W d t tol flags) \<longleftrightarrow>
      (\<exists>icenter < nqbxcenters t.
         c1_has_close_source W t (expansion_radii W d) tol icenter)"
    by (rule check_disks_found)
  show "fst (check_sufficient_source_quadrature_resolution W d t flags) \<longleftrightarrow>
      (\<exists>i < nqbxsources t. c2_has_close_center W t (source_danger_zone_radii W d) i)"
    by (rule check_quad_found)
  show "newly_set flags (snd (check_element_prop_threshold element_property threshold flags))
      \<longrightarrow> fst (check_element_prop_threshold element_property threshold flags)"
    by (auto simp: newly_set_def check_threshold_found check_threshold_nth split: if_splits)
  show "newly_set flags (snd (check_expansion_disks_undisturbed_by_sources W d t tol flags))
      \<longrightarrow> fst (check_expansion_disks_undisturbed_by_sources W d t tol flags)"
    by (auto simp: newly_set_def check_disks_found check_disks_nth split: if_splits)
  show "newly_set flags (snd (check_sufficient_source_quadrature_resolution W d t flags))
      \<longrightarrow> fst (check_sufficient_source_quadrature_resolution W d t flags)"
    by (auto simp: newly_set_def check_quad_found check_quad_nth split: if_splits)
  show "(\<forall>e < length flags. flags ! e = 0) \<longrightarrow>
      (fst (check_element_prop_threshold element_property threshold flags) \<longleftrightarrow>
       newly_set flags
         (snd (check_element_prop_threshold element_property threshold flags)))"
    by (auto simp: newly_set_def check_threshold_found check_threshold_nth split: if_splits)
  show "(\<forall>e < length flags. flags ! e = 0) \<and>
    (\<forall>icenter < nqbxcenters t. c1_center_panel W t icenter < length flags) \<longrightarrow>
      (fst (check_expansion_disks_undisturbed_by_sources W d t tol flags) \<longleftrightarrow>
       newly_set flags
         (snd (check_expansion_disks_undisturbed_by_sources W d t tol flags)))"
  proof (intro impI iffI; elim conjE)
    assume z: "\<forall>e < length flags. flags ! e = 0"
      and r: "\<forall>icenter < nqbxcenters t. c1_center_panel W t icenter < length flags"
      and f: "fst (check_expansion_disks_undisturbed_by_sources W d t tol flags)"
    from f obtain ic where ic: "ic < nqbxcenters t"
      "c1_has_close_source W t (expansion_radii W d) tol ic"
      by (auto simp: check_disks_found)
    let ?p = "c1_center_panel W t ic"
    from r ic(1) have len: "?p < length flags" by simp
    with ic have "snd (check_expansion_disks_undisturbed_by_sources W d t tol flags) ! ?p = 1"
      by (auto simp: check_disks_nth)
    with len z show "newly_set flags
         (snd (check_expansion_disks_undisturbed_by_sources W d t tol flags))"
      unfolding newly_set_def by blast
  next
    assume "newly_set flags
         (snd (check_expansion_disks_undisturbed_by_sources W d t tol flags))"
    then show "fst (check_expansion_disks_undisturbed_by_sources W d t tol flags)"
      by (auto simp: newly_set_def check_disks_found check_disks_nth split: if_splits)
  qed
  show "(\<forall>e < length flags. flags ! e = 0) \<and>
    (\<forall>i < nqbxsources t. c2_my_panel W t i < length flags) \<longrightarrow>
      (fst (check_sufficient_source_quadrature_resolution W d t flags) \<longleftrightarrow>
       newly_set flags
         (snd (check_sufficient_source_quadrature_resolution W d t flags)))"
  proof (intro impI iffI; elim conjE)
    assume z: "\<forall>e < length flags. flags ! e = 0"
      and r: "\<forall>i < nqbxsources t. c2_my_panel W t i < length flags"
      and f: "fst (check_sufficient_source_quadrature_resolution W d t flags)"
    from f obtain i where i: "i < nqbxsources t"
      "c2_has_close_center W t (source_danger_zone_radii W d) i"
      by (auto simp: check_quad_found)
    let ?p = "c2_my_panel W t i"
    from r i(1) have len: "?p < length flags" by simp
    with i have "snd (check_sufficient_source_quadrature_resolution W d t flags) ! ?p = 1"
      by (auto simp: check_quad_nth)
    with len z show "newly_set flags
         (snd (check_sufficient_source_quadrature_resolution W d t flags))"
      unfolding newly_set_def by blast
  next
    assume "newly_set flags
         (snd (check_sufficient_source_quadrature_resolution W d t flags))"
    then show "fst (check_sufficient_source_quadrature_resolution W d t flags)"
      by (auto simp: newly_set_def check_quad_found check_quad_nth split: if_splits)
  qed
qed

text \<open>An instance on cleared flags, where the signal and a newly set flag coincide.\<close>

theorem check_signal_example:
  "fst (check_element_prop_threshold [3, 1, 5] 2 [0, 0, 0]) \<and>
   newly_set [0, 0, 0] (snd (check_element_prop_threshold [3, 1, 5] 2 [0, 0, 0]))"
proof -
  note inst = check_signal_reports_a_write[where element_property = "[3, 1, 5]"
      and threshold = 2 and flags = "[0, 0, 0]" and W = example_wrangler and d = 3
      and t = "example_tree 3" and tol = "1 / 2"]
  have z: "\<forall>e < length [0, 0, 0 :: int]. [0, 0, 0 :: int] ! e = 0"
    by (simp add: nth_Cons' )
  have f: "fst (check_element_prop_threshold [3, 1, 5] 2 [0, 0, 0])"
    by (simp add: check_element_prop_threshold_def element_prop_threshold_checker_def
        threshold_work_item_def Let_def)
  from inst z have "fst (check_element_prop_threshold [3, 1, 5] 2 [0, 0, 0]) \<longleftrightarrow>
       newly_set [0, 0, 0] (snd (check_element_prop_threshold [3, 1, 5] 2 [0, 0, 0]))"
    by blast
  with f show ?thesis by simp
qed

section \<open>Monotone flags\<close>

text \<open>The panels a checker writes to do not depend on the flags it is given.\<close>

fun checker_hits :: "('d, 'r, 'c) checker \<Rightarrow> nat \<Rightarrow> bool" where
  "checker_hits (Threshold_checker element_property threshold) p =
     (element_property ! p > threshold)"
| "checker_hits (Expansion_disk_checker W d t tol) p =
     (\<exists>icenter < nqbxcenters t.
        c1_has_close_source W t (expansion_radii W d) tol icenter \<and>
        c1_center_panel W t icenter = p)"
| "checker_hits (Quadrature_resolution_checker W d t) p =
     (\<exists>i < nqbxsources t.
        c2_has_close_center W t (source_danger_zone_radii W d) i \<and> c2_my_panel W t i = p)"

lemma run_checker_length: "length (run_checker c flags) = length flags"
  by (cases c) (simp_all add: check_threshold_length check_disks_length check_quad_length)

lemma run_checker_nth:
  "p < length flags \<Longrightarrow>
   run_checker c flags ! p = (if checker_hits c p then 1 else flags ! p)"
  by (cases c) (simp_all add: check_threshold_nth check_disks_nth check_quad_nth)

lemma fold_run_checker_length: "length (fold run_checker cs flags) = length flags"
  by (induction cs arbitrary: flags) (simp_all add: run_checker_length)

lemma fold_run_checker_nth:
  "p < length flags \<Longrightarrow>
   fold run_checker cs flags ! p =
     (if \<exists>c \<in> set cs. checker_hits c p then 1 else flags ! p)"
proof (induction cs arbitrary: flags)
  case Nil
  show ?case by simp
next
  case (Cons c cs)
  have len: "p < length (run_checker c flags)"
    using Cons.prems by (simp add: run_checker_length)
  show ?case
    using Cons.prems by (auto simp: Cons.IH[OF len] run_checker_nth)
qed

text \<open>
  C7. On flags that hold only 0 and 1, as within an iteration, any sequence of checkers
  leaves the same flags as any reordering of it; the flags keep their length, no entry
  decreases, every entry stays 0 or 1, a flag that is set stays set, and a single
  checker leaves each entry as it was or at 1.
\<close>

theorem refine_flags_only_set_in_any_order:
  fixes cs cs' :: "('d, 'r, 'c) checker list"
  assumes "set flags \<subseteq> {0, 1}" and "mset cs = mset cs'"
  shows "fold run_checker cs flags = fold run_checker cs' flags \<and>
         length (fold run_checker cs flags) = length flags \<and>
         (\<forall>e < length flags.
            flags ! e \<le> fold run_checker cs flags ! e \<and>
            fold run_checker cs flags ! e \<in> {0, 1} \<and>
            (flags ! e = 1 \<longrightarrow> fold run_checker cs flags ! e = 1)) \<and>
         (\<forall>c :: ('d, 'r, 'c) checker. \<forall>e < length flags.
            run_checker c flags ! e = flags ! e \<or> run_checker c flags ! e = 1)"
proof (intro conjI allI impI)
  from assms(2) have sets: "set cs = set cs'"
    by (rule mset_eq_setD)
  show "fold run_checker cs flags = fold run_checker cs' flags"
    by (rule nth_equalityI)
       (simp_all add: fold_run_checker_length fold_run_checker_nth sets)
  show "length (fold run_checker cs flags) = length flags"
    by (rule fold_run_checker_length)
  fix e assume e: "e < length flags"
  then have "flags ! e \<in> {0, 1}"
    using assms(1) by (meson nth_mem subsetD)
  then have v: "flags ! e = 0 \<or> flags ! e = 1" by simp
  from v e show "flags ! e \<le> fold run_checker cs flags ! e"
    by (auto simp: fold_run_checker_nth)
  from v e show "fold run_checker cs flags ! e \<in> {0, 1}"
    by (auto simp: fold_run_checker_nth)
  show "fold run_checker cs flags ! e = 1" if "flags ! e = 1"
    using that e by (simp add: fold_run_checker_nth)
  show "run_checker c flags ! e = flags ! e \<or> run_checker c flags ! e = 1"
    for c :: "('d, 'r, 'c) checker"
    using e by (simp add: run_checker_nth)
qed

text \<open>
  An instance: two threshold checks and the Condition-1 check on the line of two panels,
  in two orders.
\<close>

theorem refine_flags_example:
  "fold run_checker
     [Threshold_checker [3, 0] 2,
      Expansion_disk_checker example_wrangler 2 (example_tree 2) (1 / 2),
      Threshold_checker [0, 1] 0] [0, 0] =
   fold run_checker
     [Threshold_checker [0, 1] 0,
      Threshold_checker [3, 0] 2,
      Expansion_disk_checker example_wrangler 2 (example_tree 2) (1 / 2)] [0, 0] \<and>
   fold run_checker
     [Threshold_checker [0, 1] 0,
      Threshold_checker [3, 0] 2,
      Expansion_disk_checker example_wrangler 2 (example_tree 2) (1 / 2)] [0, 0] = [1, 1]"
proof -
  have f: "set [0, 0 :: int] \<subseteq> {0, 1}" by simp
  have m: "mset [Threshold_checker [3, 0] 2,
      Expansion_disk_checker example_wrangler 2 (example_tree 2) (1 / 2),
      Threshold_checker [0, 1] 0] =
    mset [Threshold_checker [0, 1] 0,
      Threshold_checker [3, 0] 2,
      Expansion_disk_checker example_wrangler 2 (example_tree 2) (1 / 2)]"
    by (simp add: add.commute add.left_commute)
  have ev: "fold run_checker
     [Threshold_checker [0, 1] 0,
      Threshold_checker [3, 0] 2,
      Expansion_disk_checker example_wrangler 2 (example_tree 2) (1 / 2)] [0, 0] = [1, 1]"
    by (simp add: check_element_prop_threshold_def element_prop_threshold_checker_def
        threshold_work_item_def check_expansion_disks_undisturbed_by_sources_def
        expansion_disk_undisturbed_by_sources_checker_def c1_work_item_def
        c1_leaf_found_op_def example_wrangler_def example_tree_def upt_rec
        example_bsearch_def Let_def)
  have eq: "fold run_checker
     [Threshold_checker [3, 0] 2,
      Expansion_disk_checker example_wrangler 2 (example_tree 2) (1 / 2),
      Threshold_checker [0, 1] 0] [0, 0] =
   fold run_checker
     [Threshold_checker [0, 1] 0,
      Threshold_checker [3, 0] 2,
      Expansion_disk_checker example_wrangler 2 (example_tree 2) (1 / 2)] [0, 0]"
    using refine_flags_only_set_in_any_order[OF f m] by (rule conjunct1)
  from eq ev show ?thesis by (rule conjI)
qed


section \<open>The loops as a whole\<close>

text \<open>What one pass of a loop body may do to the state it is given.\<close>

definition body_ok ::
  "('d, 'r, 'c) wrangler \<Rightarrow> (string \<Rightarrow> bool) \<Rightarrow> ('d, 'r, 'c) refine_state \<Rightarrow>
     ('d, 'r, 'c) refine_state \<Rightarrow> bool" where
  "body_ok W E st st' \<longleftrightarrow>
     niter st' = niter st \<and>
     (\<exists>ev. calls st' = calls st @ ev \<and> filter is_warning_call ev = [] \<and>
        (if iter_violated_criteria st' = []
         then connections st' = connections st \<and>
              violated_criteria st' = violated_criteria st \<and>
              current_discr st' = current_discr st \<and>
              filter is_refine_call ev = []
         else \<exists>conn entry.
              connections st' = connections st @ [conn] \<and>
              violated_criteria st' = violated_criteria st @ [entry] \<and> E entry \<and>
              current_discr st' = to_discr W conn \<and>
              length (filter is_refine_call ev) = 1))"

text \<open>What holds of the local variables whenever the loop test is reached.\<close>

definition loop_inv ::
  "('d, 'r, 'c) wrangler \<Rightarrow> (string \<Rightarrow> bool) \<Rightarrow> 'd \<Rightarrow> ('d, 'r, 'c) refine_state \<Rightarrow> bool" where
  "loop_inv W E d0 st \<longleftrightarrow>
     length (violated_criteria st) = length (connections st) \<and>
     length (filter is_refine_call (calls st)) = length (connections st) \<and>
     (\<forall>entry \<in> set (violated_criteria st). E entry) \<and>
     current_discr st =
       (if connections st = [] then d0 else to_discr W (last (connections st)))"

lemma loop_inv_body:
  assumes "loop_inv W E d0 st" and "body_ok W E st1 st'"
    and "connections st1 = connections st" "violated_criteria st1 = violated_criteria st"
    and "current_discr st1 = current_discr st" "calls st1 = calls st"
  shows "loop_inv W E d0 st'"
  using assms unfolding loop_inv_def body_ok_def
  by (auto split: if_splits)

text \<open>
  Both loops have the same shape and differ in the body only, so the result is proved
  once, for any function that satisfies the loop's equation, by induction on the
  iterations that remain below the cap.
\<close>

lemma while_result:
  fixes L :: "('d, 'r, 'c) refine_state \<Rightarrow> ('d, 'r, 'c) refine_state"
  assumes eq0: "\<forall>st. L st =
       (if iter_violated_criteria st = [] then st
        else let st1 = st\<lparr>iter_violated_criteria := [], niter := niter st + 1\<rparr>
             in if niter st1 > m
                then st1\<lparr>calls := calls st1 @
                         [Call_warn_max_iterations (violated_criteria st1) tol]\<rparr>
                else L (b st1))"
    and body0: "\<forall>st. iter_violated_criteria st = [] \<longrightarrow> body_ok W E st (b st)"
    and start: "iter_violated_criteria st \<noteq> []" "int (length (connections st)) = niter st"
      "loop_inv W E d0 st" "filter is_warning_call (calls st) = []"
  shows "loop_inv W E d0 (L st) \<and> iter_violated_criteria (L st) = [] \<and>
         int (length (connections (L st))) = niter (L st) - 1 \<and>
         filter is_warning_call (calls (L st)) =
           (if niter (L st) > m
            then [Call_warn_max_iterations (violated_criteria (L st)) tol] else []) \<and>
         (niter (L st) > m \<longrightarrow> niter (L st) = max m (niter st) + 1)"
proof -
  from eq0 have eq: "L st =
       (if iter_violated_criteria st = [] then st
        else let st1 = st\<lparr>iter_violated_criteria := [], niter := niter st + 1\<rparr>
             in if niter st1 > m
                then st1\<lparr>calls := calls st1 @
                         [Call_warn_max_iterations (violated_criteria st1) tol]\<rparr>
                else L (b st1))" for st
    by (rule spec)
  from body0 have body: "body_ok W E st (b st)" if "iter_violated_criteria st = []" for st
    using that by blast
  show ?thesis
    using start
  proof (induction "nat (m - niter st)" arbitrary: st rule: less_induct)
  case less
  let ?st1 = "st\<lparr>iter_violated_criteria := [], niter := niter st + 1\<rparr>"
  show ?case
  proof (cases "niter st + 1 > m")
    case True
    then have L: "L st = ?st1\<lparr>calls := calls ?st1 @
        [Call_warn_max_iterations (violated_criteria ?st1) tol]\<rparr>"
      using less.prems(1) by (subst eq) (simp add: Let_def)
    show ?thesis
      unfolding L using less.prems True by (auto simp: loop_inv_def)
  next
    case False
    let ?st2 = "b ?st1"
    have L: "L st = L ?st2"
      using less.prems(1) False by (subst eq) (simp add: Let_def)
    have ok: "body_ok W E ?st1 ?st2"
      by (rule body) simp
    have inv2: "loop_inv W E d0 ?st2"
      by (rule loop_inv_body[OF less.prems(3) ok]) simp_all
    have n2: "niter ?st2 = niter st + 1"
      using ok by (simp add: body_ok_def)
    from ok obtain ev where ev: "calls ?st2 = calls st @ ev" "filter is_warning_call ev = []"
      by (auto simp: body_ok_def)
    have w2: "filter is_warning_call (calls ?st2) = []"
      using ev less.prems(4) by simp
    show ?thesis
    proof (cases "iter_violated_criteria ?st2 = []")
      case True
      then have L2: "L ?st2 = ?st2" by (subst eq) simp
      have "connections ?st2 = connections st"
        using ok True by (auto simp: body_ok_def)
      then show ?thesis
        unfolding L L2 using inv2 True n2 w2 less.prems(2) False by simp
    next
      case nonempty: False
      have c2: "int (length (connections ?st2)) = niter ?st2"
        using ok nonempty n2 less.prems(2) by (auto simp: body_ok_def)
      have "nat (m - niter ?st2) < nat (m - niter st)"
        using n2 False by simp
      from less.hyps[OF this nonempty c2 inv2 w2]
      show ?thesis
        unfolding L using n2 False by (auto simp: max_def)
    qed
  qed
qed
qed

text \<open>The history entries each stage can write.\<close>

definition stage1_entry :: "string \<Rightarrow> bool" where
  "stage1_entry e \<longleftrightarrow>
     e \<in> {''kernel length scale'', ''curvature'', ''kernel length scale and curvature'',
          ''disturbed expansions''}"

definition stage2_entry :: "string \<Rightarrow> bool" where
  "stage2_entry e \<longleftrightarrow> e = ''insufficient quadrature resolution''"

lemma stage1_checks_frame:
  "connections (fst (stage1_checks W k c tol vis st)) = connections st \<and>
   violated_criteria (fst (stage1_checks W k c tol vis st)) = violated_criteria st \<and>
   current_discr (fst (stage1_checks W k c tol vis st)) = current_discr st \<and>
   current_refiner (fst (stage1_checks W k c tol vis st)) = current_refiner st"
  by (simp add: stage1_checks_def stage1_check_kernel_length_scale_def
      stage1_check_scaled_max_curv_def stage1_check_disturbed_expansions_def Let_def
      split: option.split)

lemma stage1_checks_calls:
  "\<exists>ev. calls (fst (stage1_checks W k c tol vis st)) = calls st @ ev \<and>
        filter is_warning_call ev = [] \<and> filter is_refine_call ev = []"
  by (simp add: stage1_checks_def stage1_check_kernel_length_scale_def
      stage1_check_scaled_max_curv_def stage1_check_disturbed_expansions_def Let_def
      split: option.split)

lemma stage1_checks_entries:
  "iter_violated_criteria st = [] \<Longrightarrow>
   iter_violated_criteria (fst (stage1_checks W k c tol vis st)) \<in>
     {[], [''kernel length scale''], [''curvature''],
      [''kernel length scale'', ''curvature''], [''disturbed expansions'']}"
  by (simp add: stage1_checks_def stage1_check_kernel_length_scale_def
      stage1_check_scaled_max_curv_def stage1_check_disturbed_expansions_def Let_def
      split: option.split)

lemma apply_refinement_fields:
  "connections (apply_refinement W p) =
     connections (fst p) @ [snd (wrangler_refine W (current_discr (fst p))
                                   (current_refiner (fst p)) (snd p))] \<and>
   violated_criteria (apply_refinement W p) =
     violated_criteria (fst p) @ [join '' and '' (iter_violated_criteria (fst p))] \<and>
   iter_violated_criteria (apply_refinement W p) = iter_violated_criteria (fst p) \<and>
   current_discr (apply_refinement W p) =
     to_discr W (snd (wrangler_refine W (current_discr (fst p))
                        (current_refiner (fst p)) (snd p))) \<and>
   calls (apply_refinement W p) =
     calls (fst p) @ [Call_refine (map (\<lambda>f. f \<noteq> 0) (snd p))] \<and>
   niter (apply_refinement W p) = niter (fst p)"
  by (simp add: apply_refinement_def Let_def)

lemma stage1_iteration_ok:
  assumes "iter_violated_criteria st = []"
  shows "body_ok W stage1_entry st (stage1_iteration W k c tol vis st)"
proof -
  let ?p = "stage1_checks W k c tol vis st"
  obtain ev where ev: "calls (fst ?p) = calls st @ ev" "filter is_warning_call ev = []"
    "filter is_refine_call ev = []"
    using stage1_checks_calls by blast
  note fr = stage1_checks_frame[of W k c tol vis st]
  show ?thesis
  proof (cases "iter_violated_criteria (fst ?p) = []")
    case True
    then show ?thesis
      using ev fr by (auto simp: body_ok_def stage1_iteration_def Let_def niter_stage1_checks)
  next
    case False
    have "stage1_entry (join '' and '' (iter_violated_criteria (fst ?p)))"
      using stage1_checks_entries[OF assms, of W k c tol vis] False
      by (auto simp: stage1_entry_def)
    then show ?thesis
      using False ev fr
      by (simp add: body_ok_def stage1_iteration_def Let_def niter_stage1_checks
          apply_refinement_fields)
  qed
qed

lemma stage2_iteration_ok:
  assumes "iter_violated_criteria st = []"
  shows "body_ok W stage2_entry st (stage2_iteration W d1 vis st)"
  using assms
  by (simp add: body_ok_def stage2_iteration_def stage2_checks_def Let_def
      apply_refinement_fields stage2_entry_def)

lemmas example_defs = example_wrangler_def example_tree_def example_bsearch_def
lemmas check_defs = check_element_prop_threshold_def element_prop_threshold_checker_def
  threshold_work_item_def check_expansion_disks_undisturbed_by_sources_def
  expansion_disk_undisturbed_by_sources_checker_def c1_work_item_def c1_leaf_found_op_def
  check_sufficient_source_quadrature_resolution_def
  sufficient_source_quadrature_resolution_checker_def c2_work_item_def c2_leaf_found_op_def
lemmas loop_defs = stage1_iteration_def stage1_checks_def stage1_check_kernel_length_scale_def
  stage1_check_scaled_max_curv_def stage1_check_disturbed_expansions_def
  stage2_iteration_def stage2_checks_def apply_refinement_def wrangler_refine_def
  make_empty_refine_flags_def initial_state_def

text \<open>Two runs on the example line, evaluated.\<close>

lemma ex_stage2_loop:
  "refine_qbx_stage2_loop example_wrangler 1 None (Some 1) None False =
     \<lparr>connections = [(1, 2)], violated_criteria = [''insufficient quadrature resolution''],
      iter_violated_criteria = [], niter = 2, current_discr = 2, current_refiner = 2,
      calls = [Call_make_quad_stage2_discr, Call_build_tree, Call_find_peer_lists,
               Call_check_sufficient_source_quadrature_resolution, Call_refine [True],
               Call_warn_max_iterations [''insufficient quadrature resolution''] 0.025]\<rparr>"
  by (simp add: refine_qbx_stage2_loop_def stage2_while.simps loop_defs check_defs
      example_defs Let_def upt_rec)

lemma ex_stage1_run:
  "refine_qbx_stage1_run example_wrangler 1 None (Some 1) (Some (1 / 2)) None None False =
     \<lparr>connections = [(1, 2), (2, 3)],
      violated_criteria = [''curvature'', ''disturbed expansions''],
      iter_violated_criteria = [], niter = 3, current_discr = 3, current_refiner = 3,
      calls = [Call_check_scaled_max_curv, Call_refine [True],
               Call_check_scaled_max_curv, Call_build_tree, Call_find_peer_lists,
               Call_check_expansion_disks_undisturbed_by_sources, Call_refine [True, False],
               Call_check_scaled_max_curv, Call_build_tree, Call_find_peer_lists,
               Call_check_expansion_disks_undisturbed_by_sources]\<rparr>"
  by (simp add: refine_qbx_stage1_run_def stage1_while.simps loop_defs check_defs
      example_defs Let_def upt_rec eval_nat_numeral)

lemma initial_state_start:
  "iter_violated_criteria (initial_state d0 r) \<noteq> []"
  "int (length (connections (initial_state d0 r))) = niter (initial_state d0 r)"
  "loop_inv W E d0 (initial_state d0 r)"
  "filter is_warning_call (calls (initial_state d0 r)) = []"
  "niter (initial_state d0 r) = 0"
  by (simp_all add: initial_state_def loop_inv_def)

lemma stage1_while_facts:
  fixes W :: "('d, 'r, 'c) wrangler"
  assumes f_def: "f = stage1_while W k c tol m vis (initial_state d0 r)"
  shows "loop_inv W stage1_entry d0 f \<and> iter_violated_criteria f = [] \<and>
         int (length (connections f)) = niter f - 1 \<and>
         filter is_warning_call (calls f) =
           (if niter f > m then [Call_warn_max_iterations (violated_criteria f) tol] else []) \<and>
         (niter f > m \<longrightarrow> niter f = max m 0 + 1)"
proof -
  have eq: "\<forall>st. stage1_while W k c tol m vis st =
       (if iter_violated_criteria st = [] then st
        else let st1 = st\<lparr>iter_violated_criteria := [], niter := niter st + 1\<rparr>
             in if niter st1 > m
                then st1\<lparr>calls := calls st1 @
                         [Call_warn_max_iterations (violated_criteria st1) tol]\<rparr>
                else stage1_while W k c tol m vis (stage1_iteration W k c tol vis st1))"
    by (intro allI) (rule stage1_while.simps)
  have body: "\<forall>st. iter_violated_criteria st = [] \<longrightarrow>
      body_ok W stage1_entry st (stage1_iteration W k c tol vis st)"
    by (intro allI impI) (rule stage1_iteration_ok)
  note r = while_result[OF eq body initial_state_start(1,2,3,4)]
  from r show ?thesis
    unfolding f_def initial_state_start(5) .
qed

lemma stage2_while_facts:
  fixes W :: "('d, 'r, 'c) wrangler"
  assumes f_def: "f = stage2_while W d0 tol m vis (initial_state d0 r)"
  shows "loop_inv W stage2_entry d0 f \<and> iter_violated_criteria f = [] \<and>
         int (length (connections f)) = niter f - 1 \<and>
         filter is_warning_call (calls f) =
           (if niter f > m then [Call_warn_max_iterations (violated_criteria f) tol] else []) \<and>
         (niter f > m \<longrightarrow> niter f = max m 0 + 1)"
proof -
  have eq: "\<forall>st. stage2_while W d0 tol m vis st =
       (if iter_violated_criteria st = [] then st
        else let st1 = st\<lparr>iter_violated_criteria := [], niter := niter st + 1\<rparr>
             in if niter st1 > m
                then st1\<lparr>calls := calls st1 @
                         [Call_warn_max_iterations (violated_criteria st1) tol]\<rparr>
                else stage2_while W d0 tol m vis (stage2_iteration W d0 vis st1))"
    by (intro allI) (rule stage2_while.simps)
  have body: "\<forall>st. iter_violated_criteria st = [] \<longrightarrow>
      body_ok W stage2_entry st (stage2_iteration W d0 vis st)"
    by (intro allI impI) (rule stage2_iteration_ok)
  note r = while_result[OF eq body initial_state_start(1,2,3,4)]
  from r show ?thesis
    unfolding f_def initial_state_start(5) .
qed

text \<open>The facts about a finished loop that the claims use, in terms of counts.\<close>

lemma loop_facts_counts:
  assumes "loop_inv W E d0 f" "int (length (connections f)) = niter f - 1"
    "filter is_warning_call (calls f) =
       (if niter f > m then [Call_warn_max_iterations (violated_criteria f) tol] else [])"
    "niter f > m \<longrightarrow> niter f = max m 0 + 1"
  shows "int (length (filter is_refine_call (calls f))) \<le> max m 0 \<and>
         length (connections f) = length (filter is_refine_call (calls f)) \<and>
         length (violated_criteria f) = length (filter is_refine_call (calls f)) \<and>
         filter is_warning_call (calls f) =
           (if int (length (filter is_refine_call (calls f))) = max m 0
            then [Call_warn_max_iterations (violated_criteria f) tol] else []) \<and>
         current_discr f =
           (if connections f = [] then d0 else to_discr W (last (connections f))) \<and>
         (\<forall>entry \<in> set (violated_criteria f). E entry)"
proof -
  from assms(1) have n: "length (filter is_refine_call (calls f)) = length (connections f)"
    and v: "length (violated_criteria f) = length (connections f)"
    and d: "current_discr f =
           (if connections f = [] then d0 else to_discr W (last (connections f)))"
    and e: "\<forall>entry \<in> set (violated_criteria f). E entry"
    by (simp_all add: loop_inv_def)
  have w: "niter f > m \<longleftrightarrow> int (length (connections f)) = max m 0"
    using assms(2,4) by (auto simp: max_def)
  have b: "int (length (connections f)) \<le> max m 0"
    using assms(2,4) by (auto simp: max_def)
  show ?thesis
    using n v d e w b assms(3) by simp
qed

lemma uniform_refinement_rounds_result:
  "\<exists>new. connections (uniform_refinement_rounds W n st) = connections st @ new \<and>
     length new = n \<and>
     calls (uniform_refinement_rounds W n st) =
       calls st @ map (\<lambda>d. Call_refine (replicate (mesh_nelements W d) True))
                    (take n (current_discr st # map (to_discr W) new)) \<and>
     current_discr (uniform_refinement_rounds W n st) =
       last (current_discr st # map (to_discr W) new) \<and>
     violated_criteria (uniform_refinement_rounds W n st) = violated_criteria st"
proof (induction n arbitrary: st)
  case 0
  show ?case by simp
next
  case (Suc n)
  let ?flags = "replicate (mesh_nelements W (current_discr st)) (1::int)"
  let ?r = "wrangler_refine W (current_discr st) (current_refiner st) ?flags"
  let ?st = "st\<lparr>current_refiner := fst ?r, current_discr := to_discr W (snd ?r),
                connections := connections st @ [snd ?r],
                calls := calls st @
                  [Call_refine (replicate (mesh_nelements W (current_discr st)) True)]\<rparr>"
  have step: "uniform_refinement_rounds W (Suc n) st = uniform_refinement_rounds W n ?st"
    by (simp add: Let_def)
  from Suc.IH[of ?st] obtain new where new:
    "connections (uniform_refinement_rounds W n ?st) = connections ?st @ new"
    "length new = n"
    "calls (uniform_refinement_rounds W n ?st) =
       calls ?st @ map (\<lambda>d. Call_refine (replicate (mesh_nelements W d) True))
                    (take n (current_discr ?st # map (to_discr W) new))"
    "current_discr (uniform_refinement_rounds W n ?st) =
       last (current_discr ?st # map (to_discr W) new)"
    "violated_criteria (uniform_refinement_rounds W n ?st) = violated_criteria ?st"
    by blast
  show ?case
    unfolding step
    by (rule exI[of _ "snd ?r # new"]) (simp add: new)
qed

lemma while_calls_inv:
  fixes L :: "('d, 'r, 'c) refine_state \<Rightarrow> ('d, 'r, 'c) refine_state"
  assumes eq0: "\<forall>st. L st =
       (if iter_violated_criteria st = [] then st
        else let st1 = st\<lparr>iter_violated_criteria := [], niter := niter st + 1\<rparr>
             in if niter st1 > m
                then st1\<lparr>calls := calls st1 @
                         [Call_warn_max_iterations (violated_criteria st1) tol]\<rparr>
                else L (b st1))"
    and niter0: "\<forall>st. niter (b st) = niter st"
    and body0: "\<forall>st. iter_violated_criteria st = [] \<longrightarrow> J (calls st) \<longrightarrow> J (calls (b st))"
    and warn0: "\<forall>cs h. J cs \<longrightarrow> J (cs @ [Call_warn_max_iterations h tol])"
    and start: "J (calls st)"
  shows "J (calls (L st))"
proof -
  from eq0 have eq: "L st =
       (if iter_violated_criteria st = [] then st
        else let st1 = st\<lparr>iter_violated_criteria := [], niter := niter st + 1\<rparr>
             in if niter st1 > m
                then st1\<lparr>calls := calls st1 @
                         [Call_warn_max_iterations (violated_criteria st1) tol]\<rparr>
                else L (b st1))" for st
    by (rule spec)
  show ?thesis
    using start
  proof (induction "nat (m - niter st)" arbitrary: st rule: less_induct)
    case less
    let ?st1 = "st\<lparr>iter_violated_criteria := [], niter := niter st + 1\<rparr>"
    show ?case
    proof (cases "iter_violated_criteria st = []")
      case True
      then have "L st = st" by (subst eq) simp
      then show ?thesis using less.prems by simp
    next
      case nonempty: False
      show ?thesis
      proof (cases "niter st + 1 > m")
        case True
        then have "L st = ?st1\<lparr>calls := calls ?st1 @
            [Call_warn_max_iterations (violated_criteria ?st1) tol]\<rparr>"
          using nonempty by (subst eq) (simp add: Let_def)
        then show ?thesis using less.prems warn0 by simp
      next
        case False
        have L: "L st = L (b ?st1)"
          using nonempty False by (subst eq) (simp add: Let_def)
        have "J (calls (b ?st1))"
          using body0 less.prems by simp
        moreover have "nat (m - niter (b ?st1)) < nat (m - niter st)"
          using niter0 False by simp
        ultimately show ?thesis
          unfolding L by (rule less.hyps[rotated])
      qed
    qed
  qed
qed

section \<open>Which refinements a loop applies\<close>

text \<open>
  The criteria that the checks of one stage-1 iteration find violated on a
  discretization, by the names the loop records: the two threshold checks, and the
  expansion-disk check on the tree of that discretization when neither threshold is
  exceeded. The result of a check does not depend on the flags it is given
  (\<open>check_threshold_found\<close>, \<open>check_disks_found\<close>), so each is taken on
  fresh flags; that these are the names an iteration records is
  \<open>stage1_checks_violated\<close> below.
\<close>

definition stage1_violated_criteria ::
  "('d, 'r, 'c) wrangler \<Rightarrow> real option \<Rightarrow> real option \<Rightarrow> real \<Rightarrow> 'd \<Rightarrow> string list" where
  "stage1_violated_criteria W kernel_length_scale scaled_max_curvature_threshold
       expansion_disturbance_tolerance d =
     (let refine_flags = make_empty_refine_flags W d;
          thresholds =
            (case kernel_length_scale of
               None \<Rightarrow> []
             | Some k \<Rightarrow>
                 if fst (check_element_prop_threshold (quad_resolution W d) k refine_flags)
                 then [''kernel length scale''] else []) @
            (case scaled_max_curvature_threshold of
               None \<Rightarrow> []
             | Some c \<Rightarrow>
                 if fst (check_element_prop_threshold (scaled_max_curvature W d) c refine_flags)
                 then [''curvature''] else [])
      in if thresholds \<noteq> [] then thresholds
         else if fst (check_expansion_disks_undisturbed_by_sources W d (build_tree W d)
                        expansion_disturbance_tolerance refine_flags)
              then [''disturbed expansions''] else [])"

text \<open>The same for the one check of a stage-2 iteration.\<close>

definition stage2_violated_criteria ::
  "('d, 'r, 'c) wrangler \<Rightarrow> 'd \<Rightarrow> 'd \<Rightarrow> string list" where
  "stage2_violated_criteria W stage1_density_discr d =
     (if fst (check_sufficient_source_quadrature_resolution W d
                (build_tree_stage2 W stage1_density_discr d) (make_empty_refine_flags W d))
      then [''insufficient quadrature resolution''] else [])"

text \<open>
  The discretization a loop holds after \<open>i\<close> refinements, read off its connection
  list: the input, then \<^verbatim>\<open>conn.to_discr\<close> of the connection appended last.
\<close>

definition discr_before :: "('d, 'r, 'c) wrangler \<Rightarrow> 'd \<Rightarrow> 'c list \<Rightarrow> nat \<Rightarrow> 'd" where
  "discr_before W density_discr conns i =
     (if i = 0 then density_discr else to_discr W (conns ! (i - 1)))"

text \<open>
  What holds of the history whenever the loop test is reached: every refinement so far
  was applied to a discretization with a violated criterion, and its history entry
  names the criteria violated there.
\<close>

definition history_inv ::
  "('d, 'r, 'c) wrangler \<Rightarrow> ('d \<Rightarrow> string list) \<Rightarrow> 'd \<Rightarrow> ('d, 'r, 'c) refine_state \<Rightarrow> bool" where
  "history_inv W V d0 st \<longleftrightarrow>
     length (violated_criteria st) = length (connections st) \<and>
     current_discr st = discr_before W d0 (connections st) (length (connections st)) \<and>
     (\<forall>i < length (connections st).
        V (discr_before W d0 (connections st) i) \<noteq> [] \<and>
        violated_criteria st ! i = join '' and '' (V (discr_before W d0 (connections st) i)))"

lemma stage1_checks_violated:
  "iter_violated_criteria st = [] \<Longrightarrow>
   iter_violated_criteria (fst (stage1_checks W k c tol vis st)) =
     stage1_violated_criteria W k c tol (current_discr st)"
  by (auto simp: stage1_checks_def stage1_violated_criteria_def
      stage1_check_kernel_length_scale_def stage1_check_scaled_max_curv_def
      stage1_check_disturbed_expansions_def Let_def check_threshold_found
      check_threshold_length check_disks_found split: option.split)

lemma stage2_checks_violated:
  "iter_violated_criteria st = [] \<Longrightarrow>
   iter_violated_criteria (fst (stage2_checks W d1 vis st)) =
     stage2_violated_criteria W d1 (current_discr st)"
  by (simp add: stage2_checks_def stage2_violated_criteria_def Let_def)

lemma stage1_iteration_violated:
  assumes "iter_violated_criteria st = []"
  shows "iter_violated_criteria (stage1_iteration W k c tol vis st) =
           stage1_violated_criteria W k c tol (current_discr st) \<and>
         (stage1_violated_criteria W k c tol (current_discr st) \<noteq> [] \<longrightarrow>
            violated_criteria (stage1_iteration W k c tol vis st) =
              violated_criteria st @
                [join '' and '' (stage1_violated_criteria W k c tol (current_discr st))])"
  using stage1_checks_violated[OF assms, of W k c tol vis]
    stage1_checks_frame[of W k c tol vis st]
  by (simp add: stage1_iteration_def Let_def apply_refinement_fields)

lemma stage2_iteration_violated:
  assumes "iter_violated_criteria st = []"
  shows "iter_violated_criteria (stage2_iteration W d1 vis st) =
           stage2_violated_criteria W d1 (current_discr st) \<and>
         (stage2_violated_criteria W d1 (current_discr st) \<noteq> [] \<longrightarrow>
            violated_criteria (stage2_iteration W d1 vis st) =
              violated_criteria st @
                [join '' and '' (stage2_violated_criteria W d1 (current_discr st))])"
  using stage2_checks_violated[OF assms, of W d1 vis]
  by (simp add: stage2_iteration_def Let_def apply_refinement_fields)
     (simp add: stage2_checks_def Let_def)

lemma discr_before_append:
  "i \<le> length conns \<Longrightarrow>
   discr_before W d0 (conns @ [conn]) i = discr_before W d0 conns i"
  by (cases i) (simp_all add: discr_before_def nth_append)

lemma discr_before_last:
  "discr_before W d0 (conns @ [conn]) (Suc (length conns)) = to_discr W conn"
  by (simp add: discr_before_def)

lemma history_inv_body:
  assumes inv: "history_inv W V d0 st" and ok: "body_ok W E st1 st'"
    and same: "connections st1 = connections st" "violated_criteria st1 = violated_criteria st"
      "current_discr st1 = current_discr st"
    and v: "iter_violated_criteria st' = V (current_discr st)"
    and h: "V (current_discr st) \<noteq> [] \<longrightarrow>
            violated_criteria st' =
              violated_criteria st @ [join '' and '' (V (current_discr st))]"
  shows "history_inv W V d0 st'"
proof (cases "iter_violated_criteria st' = []")
  case True
  with ok same have "connections st' = connections st"
    "violated_criteria st' = violated_criteria st" "current_discr st' = current_discr st"
    by (auto simp: body_ok_def)
  with inv show ?thesis by (simp add: history_inv_def)
next
  case False
  with ok same obtain conn where conn: "connections st' = connections st @ [conn]"
    "current_discr st' = to_discr W conn"
    by (auto simp: body_ok_def)
  from False v h have vc: "violated_criteria st' =
      violated_criteria st @ [join '' and '' (V (current_discr st))]"
    and ne: "V (current_discr st) \<noteq> []"
    by simp_all
  from inv have len: "length (violated_criteria st) = length (connections st)"
    and cur: "current_discr st = discr_before W d0 (connections st) (length (connections st))"
    and old: "\<And>i. i < length (connections st) \<Longrightarrow>
        V (discr_before W d0 (connections st) i) \<noteq> [] \<and>
        violated_criteria st ! i = join '' and '' (V (discr_before W d0 (connections st) i))"
    by (simp_all add: history_inv_def)
  have "V (discr_before W d0 (connections st') i) \<noteq> [] \<and>
        violated_criteria st' ! i = join '' and '' (V (discr_before W d0 (connections st') i))"
    if "i < length (connections st')" for i
  proof (cases "i < length (connections st)")
    case True
    then show ?thesis
      using old[OF True] len
      by (simp add: conn(1) vc discr_before_append nth_append)
  next
    case False
    with that have i: "i = length (connections st)"
      by (simp add: conn(1))
    show ?thesis
      unfolding i conn(1) vc
      using ne len cur by (simp add: discr_before_append nth_append)
  qed
  then show ?thesis
    unfolding history_inv_def
    using len by (simp add: conn vc discr_before_last)
qed

text \<open>
  The loop keeps \<open>history_inv\<close>, and when it is left without the warning the
  checks of the last iteration found nothing on the discretization it ends with.
\<close>

lemma while_violations:
  fixes L :: "('d, 'r, 'c) refine_state \<Rightarrow> ('d, 'r, 'c) refine_state"
  assumes eq0: "\<forall>st. L st =
       (if iter_violated_criteria st = [] then st
        else let st1 = st\<lparr>iter_violated_criteria := [], niter := niter st + 1\<rparr>
             in if niter st1 > m
                then st1\<lparr>calls := calls st1 @
                         [Call_warn_max_iterations (violated_criteria st1) tol]\<rparr>
                else L (b st1))"
    and body0: "\<forall>st. iter_violated_criteria st = [] \<longrightarrow> body_ok W E st (b st)"
    and link0: "\<forall>st. iter_violated_criteria st = [] \<longrightarrow>
        iter_violated_criteria (b st) = V (current_discr st) \<and>
        (V (current_discr st) \<noteq> [] \<longrightarrow>
           violated_criteria (b st) =
             violated_criteria st @ [join '' and '' (V (current_discr st))])"
    and start: "iter_violated_criteria st \<noteq> []" "history_inv W V d0 st"
  shows "history_inv W V d0 (L st) \<and>
         (filter is_warning_call (calls (L st)) = [] \<longrightarrow> V (current_discr (L st)) = [])"
proof -
  from eq0 have eq: "L st =
       (if iter_violated_criteria st = [] then st
        else let st1 = st\<lparr>iter_violated_criteria := [], niter := niter st + 1\<rparr>
             in if niter st1 > m
                then st1\<lparr>calls := calls st1 @
                         [Call_warn_max_iterations (violated_criteria st1) tol]\<rparr>
                else L (b st1))" for st
    by (rule spec)
  from body0 have body: "body_ok W E st (b st)" if "iter_violated_criteria st = []" for st
    using that by blast
  from link0 have link: "iter_violated_criteria (b st) = V (current_discr st) \<and>
        (V (current_discr st) \<noteq> [] \<longrightarrow>
           violated_criteria (b st) =
             violated_criteria st @ [join '' and '' (V (current_discr st))])"
    if "iter_violated_criteria st = []" for st
    using that by blast
  show ?thesis
    using start
  proof (induction "nat (m - niter st)" arbitrary: st rule: less_induct)
    case less
    let ?st1 = "st\<lparr>iter_violated_criteria := [], niter := niter st + 1\<rparr>"
    show ?case
    proof (cases "niter st + 1 > m")
      case True
      then have L: "L st = ?st1\<lparr>calls := calls ?st1 @
          [Call_warn_max_iterations (violated_criteria ?st1) tol]\<rparr>"
        using less.prems(1) by (subst eq) (simp add: Let_def)
      show ?thesis
        unfolding L using less.prems(2) by (simp add: history_inv_def)
    next
      case False
      let ?st2 = "b ?st1"
      have L: "L st = L ?st2"
        using less.prems(1) False by (subst eq) (simp add: Let_def)
      have ok: "body_ok W E ?st1 ?st2"
        by (rule body) simp
      have lk: "iter_violated_criteria ?st2 = V (current_discr st) \<and>
          (V (current_discr st) \<noteq> [] \<longrightarrow>
             violated_criteria ?st2 =
               violated_criteria st @ [join '' and '' (V (current_discr st))])"
        using link[of ?st1] by simp
      have inv2: "history_inv W V d0 ?st2"
        by (rule history_inv_body[OF less.prems(2) ok]) (simp_all add: lk)
      have n2: "niter ?st2 = niter st + 1"
        using ok by (simp add: body_ok_def)
      show ?thesis
      proof (cases "iter_violated_criteria ?st2 = []")
        case True
        then have L2: "L ?st2 = ?st2" by (subst eq) simp
        have "current_discr ?st2 = current_discr st"
          using ok True by (auto simp: body_ok_def)
        then show ?thesis
          unfolding L L2 using inv2 True lk by simp
      next
        case nonempty: False
        have "nat (m - niter ?st2) < nat (m - niter st)"
          using n2 False by simp
        from less.hyps[OF this nonempty inv2]
        show ?thesis
          unfolding L .
      qed
    qed
  qed
qed

lemma history_inv_start: "history_inv W V d0 (initial_state d0 r)"
  by (simp add: history_inv_def initial_state_def discr_before_def)

lemma stage1_while_violations:
  fixes W :: "('d, 'r, 'c) wrangler"
  assumes f_def: "f = stage1_while W k c tol m vis (initial_state d0 r)"
  shows "history_inv W (stage1_violated_criteria W k c tol) d0 f \<and>
         (filter is_warning_call (calls f) = [] \<longrightarrow>
            stage1_violated_criteria W k c tol (current_discr f) = [])"
proof -
  have eq: "\<forall>st. stage1_while W k c tol m vis st =
       (if iter_violated_criteria st = [] then st
        else let st1 = st\<lparr>iter_violated_criteria := [], niter := niter st + 1\<rparr>
             in if niter st1 > m
                then st1\<lparr>calls := calls st1 @
                         [Call_warn_max_iterations (violated_criteria st1) tol]\<rparr>
                else stage1_while W k c tol m vis (stage1_iteration W k c tol vis st1))"
    by (intro allI) (rule stage1_while.simps)
  have body: "\<forall>st. iter_violated_criteria st = [] \<longrightarrow>
      body_ok W stage1_entry st (stage1_iteration W k c tol vis st)"
    by (intro allI impI) (rule stage1_iteration_ok)
  have link: "\<forall>st. iter_violated_criteria st = [] \<longrightarrow>
      iter_violated_criteria (stage1_iteration W k c tol vis st) =
        stage1_violated_criteria W k c tol (current_discr st) \<and>
      (stage1_violated_criteria W k c tol (current_discr st) \<noteq> [] \<longrightarrow>
         violated_criteria (stage1_iteration W k c tol vis st) =
           violated_criteria st @
             [join '' and '' (stage1_violated_criteria W k c tol (current_discr st))])"
    by (intro allI impI) (rule stage1_iteration_violated)
  note r = while_violations[OF eq body link initial_state_start(1) history_inv_start]
  from r show ?thesis
    unfolding f_def .
qed

lemma stage2_while_violations:
  fixes W :: "('d, 'r, 'c) wrangler"
  assumes f_def: "f = stage2_while W d0 tol m vis (initial_state d0 r)"
  shows "history_inv W (stage2_violated_criteria W d0) d0 f \<and>
         (filter is_warning_call (calls f) = [] \<longrightarrow>
            stage2_violated_criteria W d0 (current_discr f) = [])"
proof -
  have eq: "\<forall>st. stage2_while W d0 tol m vis st =
       (if iter_violated_criteria st = [] then st
        else let st1 = st\<lparr>iter_violated_criteria := [], niter := niter st + 1\<rparr>
             in if niter st1 > m
                then st1\<lparr>calls := calls st1 @
                         [Call_warn_max_iterations (violated_criteria st1) tol]\<rparr>
                else stage2_while W d0 tol m vis (stage2_iteration W d0 vis st1))"
    by (intro allI) (rule stage2_while.simps)
  have body: "\<forall>st. iter_violated_criteria st = [] \<longrightarrow>
      body_ok W stage2_entry st (stage2_iteration W d0 vis st)"
    by (intro allI impI) (rule stage2_iteration_ok)
  have link: "\<forall>st. iter_violated_criteria st = [] \<longrightarrow>
      iter_violated_criteria (stage2_iteration W d0 vis st) =
        stage2_violated_criteria W d0 (current_discr st) \<and>
      (stage2_violated_criteria W d0 (current_discr st) \<noteq> [] \<longrightarrow>
         violated_criteria (stage2_iteration W d0 vis st) =
           violated_criteria st @
             [join '' and '' (stage2_violated_criteria W d0 (current_discr st))])"
    by (intro allI impI) (rule stage2_iteration_violated)
  note r = while_violations[OF eq body link initial_state_start(1) history_inv_start]
  from r show ?thesis
    unfolding f_def .
qed

text \<open>With a cap of 0 or less the first pass through the loop warns and leaves.\<close>

lemma while_at_cap:
  assumes "m \<le> 0"
  shows "stage1_while W k c tol m vis (initial_state d0 r) =
           (initial_state d0 r)\<lparr>iter_violated_criteria := [], niter := 1,
              calls := [Call_warn_max_iterations [] tol]\<rparr>"
    and "stage2_while W d0 tol m vis (initial_state d0 r) =
           (initial_state d0 r)\<lparr>iter_violated_criteria := [], niter := 1,
              calls := [Call_warn_max_iterations [] tol]\<rparr>"
proof -
  show "stage1_while W k c tol m vis (initial_state d0 r) =
           (initial_state d0 r)\<lparr>iter_violated_criteria := [], niter := 1,
              calls := [Call_warn_max_iterations [] tol]\<rparr>"
    using assms by (subst stage1_while.simps) (simp add: initial_state_def Let_def)
  show "stage2_while W d0 tol m vis (initial_state d0 r) =
           (initial_state d0 r)\<lparr>iter_violated_criteria := [], niter := 1,
              calls := [Call_warn_max_iterations [] tol]\<rparr>"
    using assms by (subst stage2_while.simps) (simp add: initial_state_def Let_def)
qed

lemma stage1_run_at_cap:
  assumes "(case maxiter of None \<Rightarrow> 10 | Some m \<Rightarrow> m) \<le> (0::int)"
  shows "calls (refine_qbx_stage1_run W d0 k c tol maxiter refiner vis) =
           [Call_warn_max_iterations [] (case tol of None \<Rightarrow> 0.025 | Some x \<Rightarrow> x)]"
  by (simp add: refine_qbx_stage1_run_def while_at_cap(1)[OF assms])

lemma stage2_loop_at_cap:
  assumes "(case maxiter of None \<Rightarrow> 10 | Some m \<Rightarrow> m) \<le> (0::int)"
  shows "calls (refine_qbx_stage2_loop W d0 tol maxiter refiner vis) =
           [Call_warn_max_iterations [] (case tol of None \<Rightarrow> 0.025 | Some x \<Rightarrow> x)]"
  by (simp add: refine_qbx_stage2_loop_def while_at_cap(2)[OF assms])

lemma stage1_run_violations:
  fixes W :: "('d, 'r, 'c) wrangler"
  assumes "f = refine_qbx_stage1_run W d0 k c tol maxiter refiner vis"
    and "tol' = (case tol of None \<Rightarrow> 0.025 | Some x \<Rightarrow> x)"
  shows "history_inv W (stage1_violated_criteria W k c tol') d0 f \<and>
         (filter is_warning_call (calls f) = [] \<longrightarrow>
            stage1_violated_criteria W k c tol' (current_discr f) = [])"
  by (rule stage1_while_violations[where m = "case maxiter of None \<Rightarrow> 10 | Some m \<Rightarrow> m"
        and r = "case refiner of None \<Rightarrow> RefinerWithoutAdjacency W d0 | Some r \<Rightarrow> r"
        and vis = vis])
     (simp add: assms refine_qbx_stage1_run_def Let_def)

lemma stage2_loop_violations:
  fixes W :: "('d, 'r, 'c) wrangler"
  assumes "f = refine_qbx_stage2_loop W d0 tol maxiter refiner vis"
  shows "history_inv W (stage2_violated_criteria W d0) d0 f \<and>
         (filter is_warning_call (calls f) = [] \<longrightarrow>
            stage2_violated_criteria W d0 (current_discr f) = [])"
  by (rule stage2_while_violations[where m = "case maxiter of None \<Rightarrow> 10 | Some m \<Rightarrow> m"
        and r = "case refiner of None \<Rightarrow> RefinerWithoutAdjacency W d0 | Some r \<Rightarrow> r"
        and vis = vis and tol = "case tol of None \<Rightarrow> 0.025 | Some x \<Rightarrow> x"])
     (simp add: assms refine_qbx_stage2_loop_def Let_def)

lemma loop_facts_violations:
  assumes cnt: "int (length (connections f)) \<le> max m 0"
    and w: "filter is_warning_call (calls f) =
       (if int (length (connections f)) = max m 0 then [x] else [])"
    and h: "history_inv W V d0 f"
    and e: "filter is_warning_call (calls f) = [] \<longrightarrow> V (current_discr f) = []"
  shows "(\<forall>i < length (connections f). V (discr_before W d0 (connections f) i) \<noteq> []) \<and>
         (filter is_warning_call (calls f) \<noteq> [] \<longleftrightarrow>
            m \<le> 0 \<or>
            (m - 1 \<le> int (length (connections f)) \<and>
             V (discr_before W d0 (connections f) (nat (m - 1))) \<noteq> [])) \<and>
         current_discr f = discr_before W d0 (connections f) (length (connections f))"
proof -
  let ?n = "length (connections f)"
  from h have all: "\<forall>i < ?n. V (discr_before W d0 (connections f) i) \<noteq> []"
    and cur: "current_discr f = discr_before W d0 (connections f) ?n"
    by (simp_all add: history_inv_def)
  from w have wn: "filter is_warning_call (calls f) \<noteq> [] \<longleftrightarrow> int ?n = max m 0"
    by simp
  have iff: "filter is_warning_call (calls f) \<noteq> [] \<longleftrightarrow>
            m \<le> 0 \<or>
            (m - 1 \<le> int ?n \<and> V (discr_before W d0 (connections f) (nat (m - 1))) \<noteq> [])"
  proof (cases "m \<le> 0")
    case True
    with cnt have "int ?n = max m 0" by simp
    with wn True show ?thesis by simp
  next
    case False
    then have m: "max m 0 = m" "0 < m" by simp_all
    show ?thesis
    proof (cases "int ?n = m")
      case True
      then have "nat (m - 1) < ?n" using m by linarith
      with all have "V (discr_before W d0 (connections f) (nat (m - 1))) \<noteq> []"
        by blast
      with True wn m False show ?thesis by simp
    next
      case neq: False
      have nw: "filter is_warning_call (calls f) = []"
        using wn neq m by simp
      have "\<not> (m - 1 \<le> int ?n \<and> V (discr_before W d0 (connections f) (nat (m - 1))) \<noteq> [])"
      proof
        assume a: "m - 1 \<le> int ?n \<and>
          V (discr_before W d0 (connections f) (nat (m - 1))) \<noteq> []"
        with cnt neq m have "nat (m - 1) = ?n" by linarith
        with a cur have "V (current_discr f) \<noteq> []" by simp
        with e nw show False by simp
      qed
      with nw False show ?thesis by simp
    qed
  qed
  from all iff cur show ?thesis by blast
qed

text \<open>The forced uniform rounds extend the connections and end at the last of them.\<close>

lemma uniform_refinement_rounds_last:
  assumes "current_discr st = discr_before W d0 (connections st) (length (connections st))"
  shows "take (length (connections st)) (connections (uniform_refinement_rounds W n st)) =
           connections st \<and>
         length (connections (uniform_refinement_rounds W n st)) =
           length (connections st) + n \<and>
         current_discr (uniform_refinement_rounds W n st) =
           discr_before W d0 (connections (uniform_refinement_rounds W n st))
             (length (connections st) + n)"
  using assms
proof (induction n arbitrary: st)
  case 0
  then show ?case by simp
next
  case (Suc n)
  let ?flags = "replicate (mesh_nelements W (current_discr st)) (1::int)"
  let ?r = "wrangler_refine W (current_discr st) (current_refiner st) ?flags"
  let ?st = "st\<lparr>current_refiner := fst ?r, current_discr := to_discr W (snd ?r),
                connections := connections st @ [snd ?r],
                calls := calls st @
                  [Call_refine (replicate (mesh_nelements W (current_discr st)) True)]\<rparr>"
  let ?res = "uniform_refinement_rounds W n ?st"
  have step: "uniform_refinement_rounds W (Suc n) st = ?res"
    by (simp add: Let_def)
  have cur: "current_discr ?st = discr_before W d0 (connections ?st) (length (connections ?st))"
    by (simp add: discr_before_last)
  from Suc.IH[OF cur] have ih:
    "take (Suc (length (connections st))) (connections ?res) = connections st @ [snd ?r]"
    "length (connections ?res) = Suc (length (connections st)) + n"
    "current_discr ?res = discr_before W d0 (connections ?res) (Suc (length (connections st)) + n)"
    by simp_all
  have "take (length (connections st)) (take (Suc (length (connections st))) (connections ?res)) =
        take (length (connections st)) (connections st @ [snd ?r])"
    by (simp only: ih(1))
  then have t: "take (length (connections st)) (connections ?res) = connections st"
    by simp
  show ?case
    unfolding step using t ih(2,3) by simp
qed

text \<open>An iteration applies one refinement when a criterion is violated, and none otherwise.\<close>

lemma stage1_iteration_refines:
  assumes "iter_violated_criteria st = []"
  shows "length (filter is_refine_call (calls (stage1_iteration W k c tol vis st))) =
           length (filter is_refine_call (calls st)) +
             (if stage1_violated_criteria W k c tol (current_discr st) = [] then 0 else 1)"
proof -
  let ?p = "stage1_checks W k c tol vis st"
  obtain ev where ev: "calls (fst ?p) = calls st @ ev" "filter is_refine_call ev = []"
    using stage1_checks_calls[of W k c tol vis st] by blast
  note v = stage1_checks_violated[OF assms, of W k c tol vis]
  show ?thesis
    unfolding v[symmetric]
    using ev by (simp add: stage1_iteration_def Let_def apply_refinement_fields)
qed

lemma stage2_iteration_refines:
  assumes "iter_violated_criteria st = []"
  shows "length (filter is_refine_call (calls (stage2_iteration W d1 vis st))) =
           length (filter is_refine_call (calls st)) +
             (if stage2_violated_criteria W d1 (current_discr st) = [] then 0 else 1)"
proof -
  note v = stage2_checks_violated[OF assms, of W d1 vis]
  show ?thesis
    unfolding v[symmetric]
    by (simp add: stage2_iteration_def Let_def apply_refinement_fields)
       (simp add: stage2_checks_def Let_def)
qed

section \<open>The iteration cap\<close>

lemma stage1_run_facts:
  fixes W :: "('d, 'r, 'c) wrangler"
  assumes "f = refine_qbx_stage1_run W d0 k c tol maxiter refiner vis"
    and "m = (case maxiter of None \<Rightarrow> 10 | Some m \<Rightarrow> m)"
    and "tol' = (case tol of None \<Rightarrow> 0.025 | Some x \<Rightarrow> x)"
  shows "loop_inv W stage1_entry d0 f \<and> iter_violated_criteria f = [] \<and>
         int (length (connections f)) = niter f - 1 \<and>
         filter is_warning_call (calls f) =
           (if niter f > m then [Call_warn_max_iterations (violated_criteria f) tol'] else []) \<and>
         (niter f > m \<longrightarrow> niter f = max m 0 + 1)"
  by (rule stage1_while_facts) (simp add: assms refine_qbx_stage1_run_def Let_def)

lemma stage2_loop_facts:
  fixes W :: "('d, 'r, 'c) wrangler"
  assumes "f = refine_qbx_stage2_loop W d0 tol maxiter refiner vis"
    and "m = (case maxiter of None \<Rightarrow> 10 | Some m \<Rightarrow> m)"
    and "tol' = (case tol of None \<Rightarrow> 0.025 | Some x \<Rightarrow> x)"
  shows "loop_inv W stage2_entry d0 f \<and> iter_violated_criteria f = [] \<and>
         int (length (connections f)) = niter f - 1 \<and>
         filter is_warning_call (calls f) =
           (if niter f > m then [Call_warn_max_iterations (violated_criteria f) tol'] else []) \<and>
         (niter f > m \<longrightarrow> niter f = max m 0 + 1)"
  by (rule stage2_while_facts) (simp add: assms refine_qbx_stage2_loop_def Let_def)

text \<open>
  C1, amended. Let \<open>m\<close> be \<open>maxiter\<close> (10 when it is not given), \<open>n\<close> the
  number of refinement applications of the stage-1 loop, or of the stage-2 loop,
  \<open>reached i\<close> the discretization the loop holds after \<open>i\<close> refinements (the
  input for \<open>i = 0\<close>) and \<open>violated d\<close> the criteria that the checks of an
  iteration find violated on \<open>d\<close>. For each loop:

  \<^item> \<open>n\<close> is at most \<open>max m 0\<close>, and it is the number of connections and the
    length of the history;

  \<^item> every refinement was applied to a discretization on which a criterion was found
    violated: \<open>violated (reached i) \<noteq> []\<close> for every \<open>i < n\<close>;

  \<^item> the warning is emitted, once and with the history, exactly when \<open>n = max m 0\<close>;
    that is, exactly when \<open>m \<le> 0\<close>, or iteration \<open>m\<close> was reached and its checks,
    on \<open>reached (m - 1)\<close>, found a criterion still violated (the criteria are not
    evaluated again after the refinement of that iteration);

  \<^item> when the loop is left without the warning, the checks found no criterion violated
    on the discretization it ends with;

  \<^item> when \<open>m \<le> 0\<close> the warning, with an empty history, is the only call of the run:
    it is emitted before any criterion is checked;

  \<^item> on every exit the discretization kept is \<open>reached n\<close>, the last one reached.
    Stage 1 returns it with the chain of all connections. Stage 2 returns the
    discretization and the connections as they are after its forced uniform rounds,
    which extend the connections of the loop by one per round and end at the last of
    them; when no round is forced it returns \<open>reached n\<close> and the connections of the
    loop.

  The last part says what \<open>violated\<close> is, for any state \<open>s\<close> at the start of an
  iteration: the names that the checks of the iteration record on the current
  discretization, and the iteration applies a refinement exactly when there is one.
\<close>

theorem refinement_loops_capped_by_maxiter:
  fixes W :: "('d, 'r, 'c) wrangler"
  shows
  "(let st = refine_qbx_stage1_run W density_discr kernel_length_scale
               scaled_max_curvature_threshold expansion_disturbance_tolerance maxiter
               refiner visualize;
        m = (case maxiter of None \<Rightarrow> 10 | Some m \<Rightarrow> m);
        tol = (case expansion_disturbance_tolerance of None \<Rightarrow> 0.025 | Some x \<Rightarrow> x);
        n = length (filter is_refine_call (calls st));
        violated = stage1_violated_criteria W kernel_length_scale
                     scaled_max_curvature_threshold tol;
        reached = discr_before W density_discr (connections st)
    in int n \<le> max m 0 \<and>
       length (connections st) = n \<and>
       length (violated_criteria st) = n \<and>
       (\<forall>i < n. violated (reached i) \<noteq> []) \<and>
       filter is_warning_call (calls st) =
         (if int n = max m 0
          then [Call_warn_max_iterations (violated_criteria st) tol] else []) \<and>
       (filter is_warning_call (calls st) \<noteq> [] \<longleftrightarrow>
          m \<le> 0 \<or> (m - 1 \<le> int n \<and> violated (reached (nat (m - 1))) \<noteq> [])) \<and>
       (filter is_warning_call (calls st) = [] \<longrightarrow> violated (current_discr st) = []) \<and>
       (m \<le> 0 \<longrightarrow> calls st = [Call_warn_max_iterations [] tol]) \<and>
       current_discr st = reached n \<and>
       refine_qbx_stage1 W density_discr kernel_length_scale
           scaled_max_curvature_threshold expansion_disturbance_tolerance maxiter refiner
           visualize =
         (current_discr st,
          ChainedDiscretizationConnection (connections st) density_discr)) \<and>
   (let st = refine_qbx_stage2_loop W stage1_density_discr expansion_disturbance_tolerance
               maxiter refiner visualize;
        m = (case maxiter of None \<Rightarrow> 10 | Some m \<Rightarrow> m);
        tol = (case expansion_disturbance_tolerance of None \<Rightarrow> 0.025 | Some x \<Rightarrow> x);
        n = length (filter is_refine_call (calls st));
        violated = stage2_violated_criteria W stage1_density_discr;
        reached = discr_before W stage1_density_discr (connections st);
        rounds = (case force_stage2_uniform_refinement_rounds of None \<Rightarrow> 0 | Some k \<Rightarrow> k);
        final = refine_qbx_stage2_run W stage1_density_discr expansion_disturbance_tolerance
                  force_stage2_uniform_refinement_rounds maxiter refiner visualize
    in int n \<le> max m 0 \<and>
       length (connections st) = n \<and>
       length (violated_criteria st) = n \<and>
       (\<forall>i < n. violated (reached i) \<noteq> []) \<and>
       filter is_warning_call (calls st) =
         (if int n = max m 0
          then [Call_warn_max_iterations (violated_criteria st) tol] else []) \<and>
       (filter is_warning_call (calls st) \<noteq> [] \<longleftrightarrow>
          m \<le> 0 \<or> (m - 1 \<le> int n \<and> violated (reached (nat (m - 1))) \<noteq> [])) \<and>
       (filter is_warning_call (calls st) = [] \<longrightarrow> violated (current_discr st) = []) \<and>
       (m \<le> 0 \<longrightarrow> calls st = [Call_warn_max_iterations [] tol]) \<and>
       current_discr st = reached n \<and>
       refine_qbx_stage2 W stage1_density_discr expansion_disturbance_tolerance
           force_stage2_uniform_refinement_rounds maxiter refiner visualize =
         (current_discr final,
          ChainedDiscretizationConnection (connections final) stage1_density_discr) \<and>
       take n (connections final) = connections st \<and>
       length (connections final) = n + nat rounds \<and>
       current_discr final =
         discr_before W stage1_density_discr (connections final) (n + nat rounds) \<and>
       (rounds \<le> 0 \<longrightarrow>
          refine_qbx_stage2 W stage1_density_discr expansion_disturbance_tolerance
              force_stage2_uniform_refinement_rounds maxiter refiner visualize =
            (current_discr st,
             ChainedDiscretizationConnection (connections st) stage1_density_discr))) \<and>
   (iter_violated_criteria s = [] \<longrightarrow>
      iter_violated_criteria
          (fst (stage1_checks W kernel_length_scale scaled_max_curvature_threshold t
                  visualize s)) =
        stage1_violated_criteria W kernel_length_scale scaled_max_curvature_threshold t
          (current_discr s) \<and>
      length (filter is_refine_call
          (calls (stage1_iteration W kernel_length_scale scaled_max_curvature_threshold t
                    visualize s))) =
        length (filter is_refine_call (calls s)) +
          (if stage1_violated_criteria W kernel_length_scale scaled_max_curvature_threshold t
                (current_discr s) = [] then 0 else 1) \<and>
      iter_violated_criteria (fst (stage2_checks W stage1_density_discr visualize s)) =
        stage2_violated_criteria W stage1_density_discr (current_discr s) \<and>
      length (filter is_refine_call
          (calls (stage2_iteration W stage1_density_discr visualize s))) =
        length (filter is_refine_call (calls s)) +
          (if stage2_violated_criteria W stage1_density_discr (current_discr s) = []
           then 0 else 1))"
proof -
  let ?m = "case maxiter of None \<Rightarrow> 10 | Some m \<Rightarrow> m"
  let ?tol = "case expansion_disturbance_tolerance of None \<Rightarrow> 0.025 | Some x \<Rightarrow> x"
  let ?k = "case force_stage2_uniform_refinement_rounds of None \<Rightarrow> 0 | Some k \<Rightarrow> k"
  let ?st1 = "refine_qbx_stage1_run W density_discr kernel_length_scale
               scaled_max_curvature_threshold expansion_disturbance_tolerance maxiter
               refiner visualize"
  let ?st2 = "refine_qbx_stage2_loop W stage1_density_discr expansion_disturbance_tolerance
               maxiter refiner visualize"
  let ?fin = "refine_qbx_stage2_run W stage1_density_discr expansion_disturbance_tolerance
                force_stage2_uniform_refinement_rounds maxiter refiner visualize"
  let ?n1 = "length (filter is_refine_call (calls ?st1))"
  let ?n2 = "length (filter is_refine_call (calls ?st2))"
  let ?V1 = "stage1_violated_criteria W kernel_length_scale scaled_max_curvature_threshold
               ?tol"
  let ?V2 = "stage2_violated_criteria W stage1_density_discr"
  have f1: "loop_inv W stage1_entry density_discr ?st1 \<and> iter_violated_criteria ?st1 = [] \<and>
         int (length (connections ?st1)) = niter ?st1 - 1 \<and>
         filter is_warning_call (calls ?st1) =
           (if niter ?st1 > ?m then [Call_warn_max_iterations (violated_criteria ?st1) ?tol]
            else []) \<and>
         (niter ?st1 > ?m \<longrightarrow> niter ?st1 = max ?m 0 + 1)"
    by (rule stage1_run_facts) (rule refl)+
  have f2: "loop_inv W stage2_entry stage1_density_discr ?st2 \<and>
         iter_violated_criteria ?st2 = [] \<and>
         int (length (connections ?st2)) = niter ?st2 - 1 \<and>
         filter is_warning_call (calls ?st2) =
           (if niter ?st2 > ?m then [Call_warn_max_iterations (violated_criteria ?st2) ?tol]
            else []) \<and>
         (niter ?st2 > ?m \<longrightarrow> niter ?st2 = max ?m 0 + 1)"
    by (rule stage2_loop_facts) (rule refl)+
  have c1: "int ?n1 \<le> max ?m 0 \<and>
         length (connections ?st1) = ?n1 \<and>
         length (violated_criteria ?st1) = ?n1 \<and>
         filter is_warning_call (calls ?st1) =
           (if int ?n1 = max ?m 0
            then [Call_warn_max_iterations (violated_criteria ?st1) ?tol] else []) \<and>
         current_discr ?st1 =
           (if connections ?st1 = [] then density_discr
            else to_discr W (last (connections ?st1))) \<and>
         (\<forall>entry \<in> set (violated_criteria ?st1). stage1_entry entry)"
    using f1 by (intro loop_facts_counts) blast+
  have c2: "int ?n2 \<le> max ?m 0 \<and>
         length (connections ?st2) = ?n2 \<and>
         length (violated_criteria ?st2) = ?n2 \<and>
         filter is_warning_call (calls ?st2) =
           (if int ?n2 = max ?m 0
            then [Call_warn_max_iterations (violated_criteria ?st2) ?tol] else []) \<and>
         current_discr ?st2 =
           (if connections ?st2 = [] then stage1_density_discr
            else to_discr W (last (connections ?st2))) \<and>
         (\<forall>entry \<in> set (violated_criteria ?st2). stage2_entry entry)"
    using f2 by (intro loop_facts_counts) blast+
  from c1 have a1: "int ?n1 \<le> max ?m 0"
    and a2: "length (connections ?st1) = ?n1"
    and a3: "length (violated_criteria ?st1) = ?n1"
    and a5: "filter is_warning_call (calls ?st1) =
           (if int ?n1 = max ?m 0
            then [Call_warn_max_iterations (violated_criteria ?st1) ?tol] else [])"
    by blast+
  from c2 have b1: "int ?n2 \<le> max ?m 0"
    and b2: "length (connections ?st2) = ?n2"
    and b3: "length (violated_criteria ?st2) = ?n2"
    and b5: "filter is_warning_call (calls ?st2) =
           (if int ?n2 = max ?m 0
            then [Call_warn_max_iterations (violated_criteria ?st2) ?tol] else [])"
    by blast+
  have h1: "history_inv W ?V1 density_discr ?st1 \<and>
         (filter is_warning_call (calls ?st1) = [] \<longrightarrow> ?V1 (current_discr ?st1) = [])"
    by (rule stage1_run_violations) (rule refl)+
  have h2: "history_inv W ?V2 stage1_density_discr ?st2 \<and>
         (filter is_warning_call (calls ?st2) = [] \<longrightarrow> ?V2 (current_discr ?st2) = [])"
    by (rule stage2_loop_violations) (rule refl)
  from h1 have a7: "filter is_warning_call (calls ?st1) = [] \<longrightarrow> ?V1 (current_discr ?st1) = []"
    by (rule conjunct2)
  from h2 have b7: "filter is_warning_call (calls ?st2) = [] \<longrightarrow> ?V2 (current_discr ?st2) = []"
    by (rule conjunct2)
  have v1: "(\<forall>i < length (connections ?st1).
              ?V1 (discr_before W density_discr (connections ?st1) i) \<noteq> []) \<and>
         (filter is_warning_call (calls ?st1) \<noteq> [] \<longleftrightarrow>
            ?m \<le> 0 \<or>
            (?m - 1 \<le> int (length (connections ?st1)) \<and>
             ?V1 (discr_before W density_discr (connections ?st1) (nat (?m - 1))) \<noteq> [])) \<and>
         current_discr ?st1 =
           discr_before W density_discr (connections ?st1) (length (connections ?st1))"
    by (rule loop_facts_violations[OF _ _ conjunct1[OF h1] a7]) (simp_all only: a2 a1 a5)
  have v2: "(\<forall>i < length (connections ?st2).
              ?V2 (discr_before W stage1_density_discr (connections ?st2) i) \<noteq> []) \<and>
         (filter is_warning_call (calls ?st2) \<noteq> [] \<longleftrightarrow>
            ?m \<le> 0 \<or>
            (?m - 1 \<le> int (length (connections ?st2)) \<and>
             ?V2 (discr_before W stage1_density_discr (connections ?st2) (nat (?m - 1))) \<noteq> [])) \<and>
         current_discr ?st2 =
           discr_before W stage1_density_discr (connections ?st2) (length (connections ?st2))"
    by (rule loop_facts_violations[OF _ _ conjunct1[OF h2] b7]) (simp_all only: b2 b1 b5)
  note v1' = v1[unfolded a2]
  note v2' = v2[unfolded b2]
  from v1' have a4: "\<forall>i < ?n1. ?V1 (discr_before W density_discr (connections ?st1) i) \<noteq> []"
    by (rule conjunct1)
  from v1' have a6: "filter is_warning_call (calls ?st1) \<noteq> [] \<longleftrightarrow>
            ?m \<le> 0 \<or>
            (?m - 1 \<le> int ?n1 \<and>
             ?V1 (discr_before W density_discr (connections ?st1) (nat (?m - 1))) \<noteq> [])"
    by (rule conjunct1[OF conjunct2])
  from v1' have a9: "current_discr ?st1 = discr_before W density_discr (connections ?st1) ?n1"
    by (rule conjunct2[OF conjunct2])
  from v2' have b4: "\<forall>i < ?n2.
      ?V2 (discr_before W stage1_density_discr (connections ?st2) i) \<noteq> []"
    by (rule conjunct1)
  from v2' have b6: "filter is_warning_call (calls ?st2) \<noteq> [] \<longleftrightarrow>
            ?m \<le> 0 \<or>
            (?m - 1 \<le> int ?n2 \<and>
             ?V2 (discr_before W stage1_density_discr (connections ?st2) (nat (?m - 1))) \<noteq> [])"
    by (rule conjunct1[OF conjunct2])
  from v2' have b9: "current_discr ?st2 =
      discr_before W stage1_density_discr (connections ?st2) ?n2"
    by (rule conjunct2[OF conjunct2])
  have a8: "?m \<le> 0 \<longrightarrow> calls ?st1 = [Call_warn_max_iterations [] ?tol]"
    by (intro impI) (rule stage1_run_at_cap)
  have b8: "?m \<le> 0 \<longrightarrow> calls ?st2 = [Call_warn_max_iterations [] ?tol]"
    by (intro impI) (rule stage2_loop_at_cap)
  have a10: "refine_qbx_stage1 W density_discr kernel_length_scale
           scaled_max_curvature_threshold expansion_disturbance_tolerance maxiter refiner
           visualize =
         (current_discr ?st1, ChainedDiscretizationConnection (connections ?st1) density_discr)"
    by (simp add: refine_qbx_stage1_def Let_def)
  have b10: "refine_qbx_stage2 W stage1_density_discr expansion_disturbance_tolerance
           force_stage2_uniform_refinement_rounds maxiter refiner visualize =
         (current_discr ?fin,
          ChainedDiscretizationConnection (connections ?fin) stage1_density_discr)"
    by (simp add: refine_qbx_stage2_def Let_def)
  have run: "?fin = uniform_refinement_rounds W (nat ?k) ?st2"
    by (simp add: refine_qbx_stage2_run_def Let_def)
  have cur2: "current_discr ?st2 =
      discr_before W stage1_density_discr (connections ?st2) (length (connections ?st2))"
    unfolding b2 by (rule b9)
  note u = uniform_refinement_rounds_last[OF cur2, of "nat ?k", folded run, unfolded b2]
  from u have b11: "take ?n2 (connections ?fin) = connections ?st2"
    by (rule conjunct1)
  from u have b12: "length (connections ?fin) = ?n2 + nat ?k"
    by (rule conjunct1[OF conjunct2])
  from u have b13: "current_discr ?fin =
      discr_before W stage1_density_discr (connections ?fin) (?n2 + nat ?k)"
    by (rule conjunct2[OF conjunct2])
  have b14: "?k \<le> 0 \<longrightarrow>
          refine_qbx_stage2 W stage1_density_discr expansion_disturbance_tolerance
              force_stage2_uniform_refinement_rounds maxiter refiner visualize =
            (current_discr ?st2,
             ChainedDiscretizationConnection (connections ?st2) stage1_density_discr)"
  proof
    assume "?k \<le> 0"
    then have "nat ?k = 0" by simp
    then have "?fin = ?st2" unfolding run by simp
    then show "refine_qbx_stage2 W stage1_density_discr expansion_disturbance_tolerance
              force_stage2_uniform_refinement_rounds maxiter refiner visualize =
            (current_discr ?st2,
             ChainedDiscretizationConnection (connections ?st2) stage1_density_discr)"
      unfolding b10 by simp
  qed
  have l: "iter_violated_criteria s = [] \<longrightarrow>
      iter_violated_criteria
          (fst (stage1_checks W kernel_length_scale scaled_max_curvature_threshold t
                  visualize s)) =
        stage1_violated_criteria W kernel_length_scale scaled_max_curvature_threshold t
          (current_discr s) \<and>
      length (filter is_refine_call
          (calls (stage1_iteration W kernel_length_scale scaled_max_curvature_threshold t
                    visualize s))) =
        length (filter is_refine_call (calls s)) +
          (if stage1_violated_criteria W kernel_length_scale scaled_max_curvature_threshold t
                (current_discr s) = [] then 0 else 1) \<and>
      iter_violated_criteria (fst (stage2_checks W stage1_density_discr visualize s)) =
        stage2_violated_criteria W stage1_density_discr (current_discr s) \<and>
      length (filter is_refine_call
          (calls (stage2_iteration W stage1_density_discr visualize s))) =
        length (filter is_refine_call (calls s)) +
          (if stage2_violated_criteria W stage1_density_discr (current_discr s) = []
           then 0 else 1)"
    by (intro impI conjI)
       (erule stage1_checks_violated stage1_iteration_refines stage2_checks_violated
          stage2_iteration_refines)+
  have s1: "int ?n1 \<le> max ?m 0 \<and>
       length (connections ?st1) = ?n1 \<and>
       length (violated_criteria ?st1) = ?n1 \<and>
       (\<forall>i < ?n1. ?V1 (discr_before W density_discr (connections ?st1) i) \<noteq> []) \<and>
       filter is_warning_call (calls ?st1) =
         (if int ?n1 = max ?m 0
          then [Call_warn_max_iterations (violated_criteria ?st1) ?tol] else []) \<and>
       (filter is_warning_call (calls ?st1) \<noteq> [] \<longleftrightarrow>
          ?m \<le> 0 \<or>
          (?m - 1 \<le> int ?n1 \<and>
           ?V1 (discr_before W density_discr (connections ?st1) (nat (?m - 1))) \<noteq> [])) \<and>
       (filter is_warning_call (calls ?st1) = [] \<longrightarrow> ?V1 (current_discr ?st1) = []) \<and>
       (?m \<le> 0 \<longrightarrow> calls ?st1 = [Call_warn_max_iterations [] ?tol]) \<and>
       current_discr ?st1 = discr_before W density_discr (connections ?st1) ?n1 \<and>
       refine_qbx_stage1 W density_discr kernel_length_scale
           scaled_max_curvature_threshold expansion_disturbance_tolerance maxiter refiner
           visualize =
         (current_discr ?st1,
          ChainedDiscretizationConnection (connections ?st1) density_discr)"
    using a1 a2 a3 a4 a5 a6 a7 a8 a9 a10 by (intro conjI)
  have s2: "int ?n2 \<le> max ?m 0 \<and>
       length (connections ?st2) = ?n2 \<and>
       length (violated_criteria ?st2) = ?n2 \<and>
       (\<forall>i < ?n2. ?V2 (discr_before W stage1_density_discr (connections ?st2) i) \<noteq> []) \<and>
       filter is_warning_call (calls ?st2) =
         (if int ?n2 = max ?m 0
          then [Call_warn_max_iterations (violated_criteria ?st2) ?tol] else []) \<and>
       (filter is_warning_call (calls ?st2) \<noteq> [] \<longleftrightarrow>
          ?m \<le> 0 \<or>
          (?m - 1 \<le> int ?n2 \<and>
           ?V2 (discr_before W stage1_density_discr (connections ?st2) (nat (?m - 1))) \<noteq> [])) \<and>
       (filter is_warning_call (calls ?st2) = [] \<longrightarrow> ?V2 (current_discr ?st2) = []) \<and>
       (?m \<le> 0 \<longrightarrow> calls ?st2 = [Call_warn_max_iterations [] ?tol]) \<and>
       current_discr ?st2 = discr_before W stage1_density_discr (connections ?st2) ?n2 \<and>
       refine_qbx_stage2 W stage1_density_discr expansion_disturbance_tolerance
           force_stage2_uniform_refinement_rounds maxiter refiner visualize =
         (current_discr ?fin,
          ChainedDiscretizationConnection (connections ?fin) stage1_density_discr) \<and>
       take ?n2 (connections ?fin) = connections ?st2 \<and>
       length (connections ?fin) = ?n2 + nat ?k \<and>
       current_discr ?fin =
         discr_before W stage1_density_discr (connections ?fin) (?n2 + nat ?k) \<and>
       (?k \<le> 0 \<longrightarrow>
          refine_qbx_stage2 W stage1_density_discr expansion_disturbance_tolerance
              force_stage2_uniform_refinement_rounds maxiter refiner visualize =
            (current_discr ?st2,
             ChainedDiscretizationConnection (connections ?st2) stage1_density_discr))"
    using b1 b2 b3 b4 b5 b6 b7 b8 b9 b10 b11 b12 b13 b14 by (intro conjI)
  show ?thesis
    unfolding Let_def by (rule conjI[OF s1 conjI[OF s2 l]])
qed

lemma ex_stage1_maxiter0:
  "refine_qbx_stage1_run example_wrangler 3 None (Some 1) None (Some 0) None False =
     \<lparr>connections = [], violated_criteria = [], iter_violated_criteria = [], niter = 1,
      current_discr = 3, current_refiner = 3,
      calls = [Call_warn_max_iterations [] 0.025]\<rparr>"
  by (simp add: refine_qbx_stage1_run_def stage1_while.simps loop_defs example_defs Let_def)

lemma ex_stage1_maxiter_neg:
  "calls (refine_qbx_stage1_run example_wrangler 3 None (Some 1) None (Some (- 1)) None False)
     = [Call_warn_max_iterations [] 0.025]"
  by (simp add: refine_qbx_stage1_run_def stage1_while.simps loop_defs example_defs Let_def)

lemma ex_stage1_checks_fine:
  "iter_violated_criteria (fst (stage1_checks example_wrangler None (Some 1) 0.025 False
      ((initial_state 3 3)\<lparr>iter_violated_criteria := []\<rparr>))) = []"
  by (simp add: loop_defs check_defs example_defs Let_def upt_rec eval_nat_numeral
      c1_leaf_sources.simps)

text \<open>
  C1, as stated, fails at \<open>maxiter = 0\<close>: the warning is emitted, with an empty
  history, although no criterion was evaluated or violated (the mesh satisfies the
  configured criterion, as its checks show); and at \<open>maxiter = -1\<close> the number of
  refinement applications, 0, is not at most \<open>maxiter\<close>.
\<close>

theorem nonconvergence_warning_without_violation:
  "filter is_warning_call
     (calls (refine_qbx_stage1_run example_wrangler 3 None (Some 1) None (Some 0) None False))
     = [Call_warn_max_iterations [] 0.025] \<and>
   violated_criteria
     (refine_qbx_stage1_run example_wrangler 3 None (Some 1) None (Some 0) None False) = [] \<and>
   filter is_criterion_check
     (calls (refine_qbx_stage1_run example_wrangler 3 None (Some 1) None (Some 0) None False))
     = [] \<and>
   iter_violated_criteria (fst (stage1_checks example_wrangler None (Some 1) 0.025 False
      ((initial_state 3 3)\<lparr>iter_violated_criteria := []\<rparr>))) = [] \<and>
   \<not> int (length (filter is_refine_call
        (calls (refine_qbx_stage1_run example_wrangler 3 None (Some 1) None (Some (- 1))
                  None False)))) \<le> - 1"
  unfolding ex_stage1_maxiter0 ex_stage1_maxiter_neg ex_stage1_checks_fine by simp

text \<open>
  Instances. Stage 2 with \<open>maxiter = 1\<close> on a mesh whose one element is under-resolved
  refines once, warns with the one history entry, and returns the refined mesh. Stage 1
  with the default cap is left without the warning after two refinements, and no
  criterion is violated on the mesh it ends with. Stage 1 with \<open>maxiter = 0\<close> only
  warns.
\<close>

theorem refinement_loops_capped_example:
  "filter is_warning_call
     (calls (refine_qbx_stage2_loop example_wrangler 1 None (Some 1) None False))
     = [Call_warn_max_iterations [''insufficient quadrature resolution''] 0.025] \<and>
   length (filter is_refine_call
     (calls (refine_qbx_stage2_loop example_wrangler 1 None (Some 1) None False))) = 1 \<and>
   stage2_violated_criteria example_wrangler 1 1 \<noteq> [] \<and>
   refine_qbx_stage2 example_wrangler 1 None None (Some 1) None False =
     (2, ChainedDiscretizationConnection [(1, 2)] 1) \<and>
   filter is_warning_call
     (calls (refine_qbx_stage1_run example_wrangler 1 None (Some 1) (Some (1 / 2)) None None
               False)) = [] \<and>
   stage1_violated_criteria example_wrangler None (Some 1) (1 / 2) 3 = [] \<and>
   calls (refine_qbx_stage1_run example_wrangler 3 None (Some 1) None (Some 0) None False) =
     [Call_warn_max_iterations [] 0.025]"
proof -
  let ?L = "refine_qbx_stage2_loop example_wrangler 1 None (Some 1) None False"
  let ?R = "refine_qbx_stage1_run example_wrangler 1 None (Some 1) (Some (1 / 2)) None None
              False"
  let ?Z = "refine_qbx_stage1_run example_wrangler 3 None (Some 1) None (Some 0) None False"
  note capped = refinement_loops_capped_by_maxiter[where W = example_wrangler
      and density_discr = 1 and stage1_density_discr = 1 and kernel_length_scale = None
      and scaled_max_curvature_threshold = "Some 1"
      and expansion_disturbance_tolerance = None and maxiter = "Some 1" and refiner = None
      and visualize = False and force_stage2_uniform_refinement_rounds = None
      and s = "initial_state 1 1" and t = "0.025", unfolded Let_def option.case]
  note converged = refinement_loops_capped_by_maxiter[where W = example_wrangler
      and density_discr = 1 and stage1_density_discr = 1 and kernel_length_scale = None
      and scaled_max_curvature_threshold = "Some 1"
      and expansion_disturbance_tolerance = "Some (1 / 2)" and maxiter = None
      and refiner = None and visualize = False
      and force_stage2_uniform_refinement_rounds = None
      and s = "initial_state 1 1" and t = "0.025", unfolded Let_def option.case]
  note at_cap = refinement_loops_capped_by_maxiter[where W = example_wrangler
      and density_discr = 3 and stage1_density_discr = 1 and kernel_length_scale = None
      and scaled_max_curvature_threshold = "Some 1"
      and expansion_disturbance_tolerance = None and maxiter = "Some 0" and refiner = None
      and visualize = False and force_stage2_uniform_refinement_rounds = None
      and s = "initial_state 1 1" and t = "0.025", unfolded Let_def option.case]
  have n: "length (filter is_refine_call (calls ?L)) = 1"
    unfolding ex_stage2_loop by simp
  from capped have "filter is_warning_call (calls ?L) =
     (if int (length (filter is_refine_call (calls ?L))) = max 1 0
      then [Call_warn_max_iterations (violated_criteria ?L) 0.025]
      else [])"
    by (elim conjE)
  then have w: "filter is_warning_call (calls ?L)
     = [Call_warn_max_iterations [''insufficient quadrature resolution''] 0.025]"
    unfolding n ex_stage2_loop by simp
  from capped have "\<forall>i < length (filter is_refine_call (calls ?L)).
      stage2_violated_criteria example_wrangler 1
        (discr_before example_wrangler 1 (connections ?L) i) \<noteq> []"
    by (elim conjE)
  then have "stage2_violated_criteria example_wrangler 1
        (discr_before example_wrangler 1 (connections ?L) 0) \<noteq> []"
    unfolding n by simp
  then have v: "stage2_violated_criteria example_wrangler 1 1 \<noteq> []"
    by (simp add: discr_before_def)
  from capped have "(0::int) \<le> 0 \<longrightarrow>
     refine_qbx_stage2 example_wrangler 1 None None (Some 1) None False =
     (current_discr ?L, ChainedDiscretizationConnection (connections ?L) 1)"
    by (elim conjE)
  then have "refine_qbx_stage2 example_wrangler 1 None None (Some 1) None False =
     (current_discr ?L, ChainedDiscretizationConnection (connections ?L) 1)"
    by simp
  then have r: "refine_qbx_stage2 example_wrangler 1 None None (Some 1) None False =
     (2, ChainedDiscretizationConnection [(1, 2)] 1)"
    unfolding ex_stage2_loop by simp
  have nw: "filter is_warning_call (calls ?R) = []"
    unfolding ex_stage1_run by simp
  from converged have "filter is_warning_call (calls ?R) = [] \<longrightarrow>
      stage1_violated_criteria example_wrangler None (Some 1) (1 / 2) (current_discr ?R) = []"
    by (elim conjE)
  with nw have "stage1_violated_criteria example_wrangler None (Some 1) (1 / 2)
      (current_discr ?R) = []"
    by (rule rev_mp)
  then have c: "stage1_violated_criteria example_wrangler None (Some 1) (1 / 2) 3 = []"
    unfolding ex_stage1_run by simp
  from at_cap have "(0::int) \<le> 0 \<longrightarrow> calls ?Z = [Call_warn_max_iterations [] 0.025]"
    by (elim conjE)
  then have z: "calls ?Z = [Call_warn_max_iterations [] 0.025]"
    by simp
  show ?thesis
    by (intro conjI) (rule w n v r nw c z)+
qed

section \<open>The forced uniform rounds\<close>

text \<open>The rounds add refinement calls only, and leave the history and the counter alone.\<close>

lemma uniform_refinement_rounds_calls:
  "filter is_warning_call (calls (uniform_refinement_rounds W n st)) =
     filter is_warning_call (calls st) \<and>
   filter is_criterion_check (calls (uniform_refinement_rounds W n st)) =
     filter is_criterion_check (calls st) \<and>
   length (filter is_refine_call (calls (uniform_refinement_rounds W n st))) =
     length (filter is_refine_call (calls st)) + n \<and>
   violated_criteria (uniform_refinement_rounds W n st) = violated_criteria st \<and>
   niter (uniform_refinement_rounds W n st) = niter st"
  by (induction n arbitrary: st) (simp_all add: Let_def)

lemma filter_uniform_calls:
  "filter is_refine_call
      (map (\<lambda>d. Call_refine (replicate (mesh_nelements W d) True)) xs) =
      map (\<lambda>d. Call_refine (replicate (mesh_nelements W d) True)) xs"
  "filter is_criterion_check
      (map (\<lambda>d. Call_refine (replicate (mesh_nelements W d) True)) xs) = []"
  "filter is_warning_call
      (map (\<lambda>d. Call_refine (replicate (mesh_nelements W d) True)) xs) = []"
  by (induction xs) simp_all

lemma stage2_run_rounds:
  fixes W :: "('d, 'r, 'c) wrangler"
  assumes "loop = refine_qbx_stage2_loop W d1 tol maxiter refiner vis"
    and "st = refine_qbx_stage2_run W d1 tol force maxiter refiner vis"
    and "k = (case force of None \<Rightarrow> 0 | Some k \<Rightarrow> k)"
  shows "\<exists>new. connections st = connections loop @ new \<and> length new = nat k \<and>
     calls st =
       calls loop @ map (\<lambda>d. Call_refine (replicate (mesh_nelements W d) True))
                    (take (nat k) (current_discr loop # map (to_discr W) new)) \<and>
     current_discr st = last (current_discr loop # map (to_discr W) new) \<and>
     violated_criteria st = violated_criteria loop"
proof -
  have run: "st = uniform_refinement_rounds W (nat k) loop"
    unfolding assms by (simp add: refine_qbx_stage2_run_def)
  show ?thesis
    unfolding run by (rule uniform_refinement_rounds_result)
qed

text \<open>
  C6. After the criterion loop of stage 2, with
  \<open>force_stage2_uniform_refinement_rounds = k\<close> (0 when it is not given),
  \<open>refine_qbx_stage2\<close> makes exactly \<open>k\<close> more calls of the refiner (none for a
  negative \<open>k\<close>, as \<^verbatim>\<open>range(k)\<close> is empty), and nothing else: round \<open>i\<close>
  flags every element of the discretization current at that round, which is the one
  the loop ended with and then the target of the connection of the round before; no
  criterion is checked in these rounds; the connections of the rounds are appended, in
  order, to those of the loop, and the returned pair is the discretization of the last
  round and the chain of all these connections from the stage-1 discretization.
\<close>

theorem forced_uniform_rounds:
  fixes W :: "('d, 'r, 'c) wrangler"
  shows
  "(let loop = refine_qbx_stage2_loop W stage1_density_discr expansion_disturbance_tolerance
                 maxiter refiner visualize;
        st = refine_qbx_stage2_run W stage1_density_discr expansion_disturbance_tolerance
               force_stage2_uniform_refinement_rounds maxiter refiner visualize;
        k = (case force_stage2_uniform_refinement_rounds of None \<Rightarrow> 0 | Some k \<Rightarrow> k);
        new = drop (length (connections loop)) (connections st);
        after_loop = drop (length (calls loop)) (calls st);
        discrs = current_discr loop # map (to_discr W) new
    in connections st = connections loop @ new \<and>
       int (length new) = max k 0 \<and>
       calls st = calls loop @ after_loop \<and>
       after_loop =
         map (\<lambda>d. Call_refine (replicate (mesh_nelements W d) True))
           (take (length new) discrs) \<and>
       int (length (filter is_refine_call after_loop)) = max k 0 \<and>
       filter is_criterion_check after_loop = [] \<and>
       filter is_warning_call after_loop = [] \<and>
       current_discr st = last discrs \<and>
       refine_qbx_stage2 W stage1_density_discr expansion_disturbance_tolerance
           force_stage2_uniform_refinement_rounds maxiter refiner visualize =
         (current_discr st,
          ChainedDiscretizationConnection (connections st) stage1_density_discr))"
proof -
  let ?loop = "refine_qbx_stage2_loop W stage1_density_discr expansion_disturbance_tolerance
                 maxiter refiner visualize"
  let ?st = "refine_qbx_stage2_run W stage1_density_discr expansion_disturbance_tolerance
               force_stage2_uniform_refinement_rounds maxiter refiner visualize"
  let ?k = "case force_stage2_uniform_refinement_rounds of None \<Rightarrow> 0 | Some k \<Rightarrow> k"
  from stage2_run_rounds[OF refl refl refl, of W stage1_density_discr
      expansion_disturbance_tolerance force_stage2_uniform_refinement_rounds maxiter refiner
      visualize]
  obtain new where new: "connections ?st = connections ?loop @ new" "length new = nat ?k"
    "calls ?st = calls ?loop @
       map (\<lambda>d. Call_refine (replicate (mesh_nelements W d) True))
         (take (nat ?k) (current_discr ?loop # map (to_discr W) new))"
    "current_discr ?st = last (current_discr ?loop # map (to_discr W) new)"
    by (elim exE conjE)
  have d: "drop (length (connections ?loop)) (connections ?st) = new"
    by (simp add: new(1))
  have a: "drop (length (calls ?loop)) (calls ?st) =
       map (\<lambda>d. Call_refine (replicate (mesh_nelements W d) True))
         (take (nat ?k) (current_discr ?loop # map (to_discr W) new))"
    by (simp add: new(3))
  have len: "length (take (nat ?k) (current_discr ?loop # map (to_discr W) new)) = nat ?k"
    by (simp add: new(2))
  have r: "refine_qbx_stage2 W stage1_density_discr expansion_disturbance_tolerance
           force_stage2_uniform_refinement_rounds maxiter refiner visualize =
         (current_discr ?st,
          ChainedDiscretizationConnection (connections ?st) stage1_density_discr)"
    by (simp add: refine_qbx_stage2_def Let_def)
  show ?thesis
    unfolding Let_def d a
    using new r len by (simp add: filter_uniform_calls)
qed

lemma ex_stage2_run:
  "refine_qbx_stage2_run example_wrangler 3 None (Some 2) None None False =
     \<lparr>connections = [(3, 6), (6, 12)], violated_criteria = [],
      iter_violated_criteria = [], niter = 1, current_discr = 12, current_refiner = 12,
      calls = [Call_make_quad_stage2_discr, Call_build_tree, Call_find_peer_lists,
               Call_check_sufficient_source_quadrature_resolution,
               Call_refine [True, True, True],
               Call_refine [True, True, True, True, True, True]]\<rparr>"
  by (simp add: refine_qbx_stage2_run_def refine_qbx_stage2_loop_def stage2_while.simps
      loop_defs check_defs example_defs Let_def upt_rec eval_nat_numeral)

lemma ex_stage2_loop_fine:
  "refine_qbx_stage2_loop example_wrangler 3 None None None False =
     \<lparr>connections = [], violated_criteria = [],
      iter_violated_criteria = [], niter = 1, current_discr = 3, current_refiner = 3,
      calls = [Call_make_quad_stage2_discr, Call_build_tree, Call_find_peer_lists,
               Call_check_sufficient_source_quadrature_resolution]\<rparr>"
  by (simp add: refine_qbx_stage2_loop_def stage2_while.simps
      loop_defs check_defs example_defs Let_def upt_rec eval_nat_numeral)

text \<open>
  An instance: two forced rounds on a mesh of three elements that needs no refinement
  flag all three and then all six elements, and the result is the mesh of twelve.
\<close>

theorem forced_uniform_rounds_example:
  "drop (length (calls (refine_qbx_stage2_loop example_wrangler 3 None None None False)))
     (calls (refine_qbx_stage2_run example_wrangler 3 None (Some 2) None None False)) =
     [Call_refine [True, True, True], Call_refine [True, True, True, True, True, True]] \<and>
   refine_qbx_stage2 example_wrangler 3 None (Some 2) None None False =
     (12, ChainedDiscretizationConnection [(3, 6), (6, 12)] 3)"
proof -
  let ?L = "refine_qbx_stage2_loop example_wrangler 3 None None None False"
  let ?S = "refine_qbx_stage2_run example_wrangler 3 None (Some 2) None None False"
  note inst = forced_uniform_rounds[where W = example_wrangler
      and stage1_density_discr = 3 and expansion_disturbance_tolerance = None
      and force_stage2_uniform_refinement_rounds = "Some 2"
      and maxiter = None and refiner = None and visualize = False,
      unfolded Let_def option.case]
  from inst have "drop (length (calls ?L)) (calls ?S) =
         map (\<lambda>d. Call_refine (replicate (mesh_nelements example_wrangler d) True))
           (take (length (drop (length (connections ?L)) (connections ?S)))
              (current_discr ?L #
               map (to_discr example_wrangler)
                 (drop (length (connections ?L)) (connections ?S))))"
    by (elim conjE)
  then have a: "drop (length (calls ?L)) (calls ?S) =
     [Call_refine [True, True, True], Call_refine [True, True, True, True, True, True]]"
    unfolding ex_stage2_run ex_stage2_loop_fine
    by (simp add: example_defs eval_nat_numeral)
  from inst have "refine_qbx_stage2 example_wrangler 3 None (Some 2) None None False =
     (current_discr ?S, ChainedDiscretizationConnection (connections ?S) 3)"
    by (elim conjE)
  then have r: "refine_qbx_stage2 example_wrangler 3 None (Some 2) None None False =
     (12, ChainedDiscretizationConnection [(3, 6), (6, 12)] 3)"
    unfolding ex_stage2_run by simp
  from a r show ?thesis by (rule conjI)
qed

section \<open>A cap of zero or less\<close>

lemma ex_stage2_maxiter0_forced:
  "refine_qbx_stage2_run example_wrangler 1 None (Some 1) (Some 0) None False =
     \<lparr>connections = [(1, 2)], violated_criteria = [],
      iter_violated_criteria = [], niter = 1, current_discr = 2, current_refiner = 2,
      calls = [Call_warn_max_iterations [] 0.025, Call_refine [True]]\<rparr>"
  by (simp add: refine_qbx_stage2_run_def refine_qbx_stage2_loop_def
      stage2_while.simps loop_defs example_defs Let_def eval_nat_numeral)

text \<open>
  C9, as stated, fails for stage 2: with \<open>maxiter = 0\<close> and one forced uniform round,
  \<open>refine_qbx_stage2\<close> warns with an empty history and then still applies a
  refinement, and the discretization it returns is not the input.
\<close>

theorem maxiter_not_positive_still_refines:
  "refine_qbx_stage2 example_wrangler 1 None (Some 1) (Some 0) None False =
     (2, ChainedDiscretizationConnection [(1, 2)] 1) \<and>
   fst (refine_qbx_stage2 example_wrangler 1 None (Some 1) (Some 0) None False) \<noteq> 1 \<and>
   calls (refine_qbx_stage2_run example_wrangler 1 None (Some 1) (Some 0) None False) =
     [Call_warn_max_iterations [] 0.025, Call_refine [True]] \<and>
   filter is_refine_call
     (calls (refine_qbx_stage2_run example_wrangler 1 None (Some 1) (Some 0) None False)) \<noteq> []"
  unfolding refine_qbx_stage2_def Let_def ex_stage2_maxiter0_forced by simp

text \<open>
  C9, amended. If \<open>maxiter \<le> 0\<close>, then \<open>refine_qbx_stage1\<close> and the criterion loop of
  \<open>refine_qbx_stage2\<close> warn on their first pass (\<open>niter = 1\<close>) with an empty history
  and do nothing else: the warning is their only call, so no criterion is evaluated
  and no refinement is applied. \<open>refine_qbx_stage1\<close> returns the input discretization
  with an empty chain of connections. \<open>refine_qbx_stage2\<close> goes on to its forced
  uniform rounds: it checks no criterion and warns once, but applies
  \<open>force_stage2_uniform_refinement_rounds\<close> refinements; it returns the input
  discretization with an empty chain when that number is 0 (the default) or less.
\<close>

theorem maxiter_not_positive:
  fixes W :: "('d, 'r, 'c) wrangler"
  assumes "m \<le> 0"
  shows
  "(let tol = (case expansion_disturbance_tolerance of None \<Rightarrow> 0.025 | Some x \<Rightarrow> x);
        k = (case force_stage2_uniform_refinement_rounds of None \<Rightarrow> 0 | Some k \<Rightarrow> k);
        st1 = refine_qbx_stage1_run W density_discr kernel_length_scale
                scaled_max_curvature_threshold expansion_disturbance_tolerance (Some m) refiner
                visualize;
        loop = refine_qbx_stage2_loop W density_discr expansion_disturbance_tolerance (Some m)
                 refiner visualize;
        st2 = refine_qbx_stage2_run W density_discr expansion_disturbance_tolerance
                force_stage2_uniform_refinement_rounds (Some m) refiner visualize
    in calls st1 = [Call_warn_max_iterations [] tol] \<and>
       niter st1 = 1 \<and>
       refine_qbx_stage1 W density_discr kernel_length_scale
           scaled_max_curvature_threshold expansion_disturbance_tolerance (Some m) refiner
           visualize = (density_discr, ChainedDiscretizationConnection [] density_discr) \<and>
       calls loop = [Call_warn_max_iterations [] tol] \<and>
       niter loop = 1 \<and>
       connections loop = [] \<and>
       current_discr loop = density_discr \<and>
       filter is_warning_call (calls st2) = [Call_warn_max_iterations [] tol] \<and>
       filter is_criterion_check (calls st2) = [] \<and>
       int (length (filter is_refine_call (calls st2))) = max k 0 \<and>
       (k \<le> 0 \<longrightarrow>
          calls st2 = [Call_warn_max_iterations [] tol] \<and>
          refine_qbx_stage2 W density_discr expansion_disturbance_tolerance
              force_stage2_uniform_refinement_rounds (Some m) refiner visualize =
            (density_discr, ChainedDiscretizationConnection [] density_discr)))"
proof -
  let ?tol = "case expansion_disturbance_tolerance of None \<Rightarrow> 0.025 | Some x \<Rightarrow> x"
  let ?r = "case refiner of None \<Rightarrow> RefinerWithoutAdjacency W density_discr | Some r \<Rightarrow> r"
  let ?k = "case force_stage2_uniform_refinement_rounds of None \<Rightarrow> 0 | Some k \<Rightarrow> k"
  let ?st1 = "refine_qbx_stage1_run W density_discr kernel_length_scale
                scaled_max_curvature_threshold expansion_disturbance_tolerance (Some m) refiner
                visualize"
  let ?loop = "refine_qbx_stage2_loop W density_discr expansion_disturbance_tolerance (Some m)
                 refiner visualize"
  let ?st2 = "refine_qbx_stage2_run W density_discr expansion_disturbance_tolerance
                force_stage2_uniform_refinement_rounds (Some m) refiner visualize"
  have s1: "?st1 = (initial_state density_discr ?r)\<lparr>iter_violated_criteria := [], niter := 1,
                     calls := [Call_warn_max_iterations [] ?tol]\<rparr>"
    by (simp add: refine_qbx_stage1_run_def while_at_cap(1)[OF assms])
  have l2: "?loop = (initial_state density_discr ?r)\<lparr>iter_violated_criteria := [], niter := 1,
                     calls := [Call_warn_max_iterations [] ?tol]\<rparr>"
    by (simp add: refine_qbx_stage2_loop_def while_at_cap(2)[OF assms])
  have c1: "calls ?st1 = [Call_warn_max_iterations [] ?tol]"
    unfolding s1 by simp
  have n1: "niter ?st1 = 1"
    unfolding s1 by simp
  have r1: "refine_qbx_stage1 W density_discr kernel_length_scale
           scaled_max_curvature_threshold expansion_disturbance_tolerance (Some m) refiner
           visualize = (density_discr, ChainedDiscretizationConnection [] density_discr)"
    unfolding refine_qbx_stage1_def s1 by (simp add: initial_state_def)
  have cl: "calls ?loop = [Call_warn_max_iterations [] ?tol]"
    unfolding l2 by simp
  have nl: "niter ?loop = 1"
    unfolding l2 by simp
  have el: "connections ?loop = []"
    unfolding l2 by (simp add: initial_state_def)
  have dl: "current_discr ?loop = density_discr"
    unfolding l2 by (simp add: initial_state_def)
  have run: "?st2 = uniform_refinement_rounds W (nat ?k) ?loop"
    by (simp add: refine_qbx_stage2_run_def)
  note u = uniform_refinement_rounds_calls[of W "nat ?k" ?loop, folded run, unfolded cl]
  from u have w: "filter is_warning_call (calls ?st2) = [Call_warn_max_iterations [] ?tol]"
    by simp
  from u have c: "filter is_criterion_check (calls ?st2) = []"
    by simp
  from u have n: "int (length (filter is_refine_call (calls ?st2))) = max ?k 0"
    by simp
  have z: "?k \<le> 0 \<longrightarrow>
          calls ?st2 = [Call_warn_max_iterations [] ?tol] \<and>
          refine_qbx_stage2 W density_discr expansion_disturbance_tolerance
              force_stage2_uniform_refinement_rounds (Some m) refiner visualize =
            (density_discr, ChainedDiscretizationConnection [] density_discr)"
  proof
    assume "?k \<le> 0"
    then have "nat ?k = 0" by simp
    then have same: "?st2 = ?loop" unfolding run by simp
    show "calls ?st2 = [Call_warn_max_iterations [] ?tol] \<and>
          refine_qbx_stage2 W density_discr expansion_disturbance_tolerance
              force_stage2_uniform_refinement_rounds (Some m) refiner visualize =
            (density_discr, ChainedDiscretizationConnection [] density_discr)"
      unfolding refine_qbx_stage2_def Let_def same
      using cl el dl by simp
  qed
  have all: "calls ?st1 = [Call_warn_max_iterations [] ?tol] \<and>
       niter ?st1 = 1 \<and>
       refine_qbx_stage1 W density_discr kernel_length_scale
           scaled_max_curvature_threshold expansion_disturbance_tolerance (Some m) refiner
           visualize = (density_discr, ChainedDiscretizationConnection [] density_discr) \<and>
       calls ?loop = [Call_warn_max_iterations [] ?tol] \<and>
       niter ?loop = 1 \<and>
       connections ?loop = [] \<and>
       current_discr ?loop = density_discr \<and>
       filter is_warning_call (calls ?st2) = [Call_warn_max_iterations [] ?tol] \<and>
       filter is_criterion_check (calls ?st2) = [] \<and>
       int (length (filter is_refine_call (calls ?st2))) = max ?k 0 \<and>
       (?k \<le> 0 \<longrightarrow>
          calls ?st2 = [Call_warn_max_iterations [] ?tol] \<and>
          refine_qbx_stage2 W density_discr expansion_disturbance_tolerance
              force_stage2_uniform_refinement_rounds (Some m) refiner visualize =
            (density_discr, ChainedDiscretizationConnection [] density_discr))"
    using c1 n1 r1 cl nl el dl w c n z by (intro conjI)
  show ?thesis
    unfolding Let_def by (rule all)
qed

text \<open>
  An instance: with \<open>maxiter = 0\<close> and no forced round, both stages only warn and
  return the mesh they were given.
\<close>

theorem maxiter_not_positive_example:
  "refine_qbx_stage1 example_wrangler 1 None (Some 1) None (Some 0) None False =
     (1, ChainedDiscretizationConnection [] 1) \<and>
   calls (refine_qbx_stage1_run example_wrangler 1 None (Some 1) None (Some 0) None False) =
     [Call_warn_max_iterations [] 0.025] \<and>
   calls (refine_qbx_stage2_run example_wrangler 1 None None (Some 0) None False) =
     [Call_warn_max_iterations [] 0.025] \<and>
   refine_qbx_stage2 example_wrangler 1 None None (Some 0) None False =
     (1, ChainedDiscretizationConnection [] 1)"
proof -
  have m: "(0::int) \<le> 0" by simp
  note inst = maxiter_not_positive[OF m, where W = example_wrangler and density_discr = 1
      and kernel_length_scale = None and scaled_max_curvature_threshold = "Some 1"
      and expansion_disturbance_tolerance = None and refiner = None and visualize = False
      and force_stage2_uniform_refinement_rounds = None, unfolded Let_def option.case]
  from inst have a: "refine_qbx_stage1 example_wrangler 1 None (Some 1) None (Some 0) None
      False = (1, ChainedDiscretizationConnection [] 1)"
    by (elim conjE)
  from inst have b: "calls (refine_qbx_stage1_run example_wrangler 1 None (Some 1) None
      (Some 0) None False) = [Call_warn_max_iterations [] 0.025]"
    by (elim conjE)
  from inst have "(0::int) \<le> 0 \<longrightarrow>
     calls (refine_qbx_stage2_run example_wrangler 1 None None (Some 0) None False) =
       [Call_warn_max_iterations [] 0.025] \<and>
     refine_qbx_stage2 example_wrangler 1 None None (Some 0) None False =
       (1, ChainedDiscretizationConnection [] 1)"
    by (elim conjE)
  then have c: "calls (refine_qbx_stage2_run example_wrangler 1 None None (Some 0) None False) =
       [Call_warn_max_iterations [] 0.025] \<and>
     refine_qbx_stage2 example_wrangler 1 None None (Some 0) None False =
       (1, ChainedDiscretizationConnection [] 1)"
    by simp
  from a b c show ?thesis by (intro conjI) simp_all
qed

section \<open>The history of violated criteria\<close>

text \<open>The names a stage-1 iteration can record, and what it does with them.\<close>

lemma stage1_violated_criteria_cases:
  "stage1_violated_criteria W k c tol d \<in>
     {[], [''kernel length scale''], [''curvature''],
      [''kernel length scale'', ''curvature''], [''disturbed expansions'']}"
  by (simp add: stage1_violated_criteria_def Let_def split: option.split)

lemma warning_call_in_filter:
  "Call_warn_max_iterations h t \<in> set cs \<longleftrightarrow>
     Call_warn_max_iterations h t \<in> set (filter is_warning_call cs)"
  by simp

lemma stage1_iteration_history:
  assumes s: "iter_violated_criteria s = []"
  shows "(let p = stage1_checks W k c tol vis s;
              s' = stage1_iteration W k c tol vis s
          in iter_violated_criteria (fst p) =
               stage1_violated_criteria W k c tol (current_discr s) \<and>
             (if iter_violated_criteria (fst p) = []
              then violated_criteria s' = violated_criteria s \<and>
                   filter is_refine_call (calls s') = filter is_refine_call (calls s)
              else violated_criteria s' =
                     violated_criteria s @ [join '' and '' (iter_violated_criteria (fst p))] \<and>
                   filter is_refine_call (calls s') =
                     filter is_refine_call (calls s) @
                       [Call_refine (map (\<lambda>f. f \<noteq> 0) (snd p))]))"
proof -
  let ?p = "stage1_checks W k c tol vis s"
  let ?s' = "stage1_iteration W k c tol vis s"
  from stage1_checks_calls[of W k c tol vis s]
  obtain ev where ev: "calls (fst ?p) = calls s @ ev" "filter is_refine_call ev = []"
    by (elim exE conjE)
  note fr = stage1_checks_frame[of W k c tol vis s]
  have v: "iter_violated_criteria (fst ?p) =
      stage1_violated_criteria W k c tol (current_discr s)"
    using s by (rule stage1_checks_violated)
  have quiet: "violated_criteria ?s' = violated_criteria s \<and>
                filter is_refine_call (calls ?s') = filter is_refine_call (calls s)"
    if "iter_violated_criteria (fst ?p) = []"
    using that ev fr by (simp add: stage1_iteration_def Let_def)
  have loud: "violated_criteria ?s' =
                  violated_criteria s @ [join '' and '' (iter_violated_criteria (fst ?p))] \<and>
                filter is_refine_call (calls ?s') =
                  filter is_refine_call (calls s) @
                    [Call_refine (map (\<lambda>f. f \<noteq> 0) (snd ?p))]"
    if "iter_violated_criteria (fst ?p) \<noteq> []"
    using that ev fr by (simp add: stage1_iteration_def Let_def apply_refinement_fields)
  have "iter_violated_criteria (fst ?p) =
               stage1_violated_criteria W k c tol (current_discr s) \<and>
             (if iter_violated_criteria (fst ?p) = []
              then violated_criteria ?s' = violated_criteria s \<and>
                   filter is_refine_call (calls ?s') = filter is_refine_call (calls s)
              else violated_criteria ?s' =
                     violated_criteria s @ [join '' and '' (iter_violated_criteria (fst ?p))] \<and>
                   filter is_refine_call (calls ?s') =
                     filter is_refine_call (calls s) @
                       [Call_refine (map (\<lambda>f. f \<noteq> 0) (snd ?p))])"
  proof (cases "iter_violated_criteria (fst ?p) = []")
    case True
    with v quiet[OF True] show ?thesis by simp
  next
    case False
    with v loud[OF False] show ?thesis by simp
  qed
  then show ?thesis unfolding Let_def .
qed

text \<open>
  C10. In a run of \<open>refine_qbx_stage1\<close>, let \<open>n\<close> be the number of refinement
  applications and \<open>reached i\<close> the discretization after \<open>i\<close> of them. The history
  \<open>violated_criteria\<close> has exactly \<open>n\<close> entries, and entry \<open>i\<close> is the
  \<^verbatim>\<open>" and "\<close>-join of the criteria found violated on \<open>reached i\<close>, which are
  \<open>kernel length scale\<close>, \<open>curvature\<close>, both in this order, or
  \<open>disturbed expansions\<close> alone (the expansion-disk check runs only when neither
  threshold is exceeded). A warning of the run carries this history, so the history it
  carries has length \<open>n\<close>. The last part is the step that gives this: an iteration
  whose checks record no criterion leaves the history and the refinement calls alone,
  and one whose checks record some appends the join of what they recorded to the
  history and makes one refinement call, with the flags of the checks.
\<close>

theorem history_entry_per_refinement:
  fixes W :: "('d, 'r, 'c) wrangler"
  shows
  "(let st = refine_qbx_stage1_run W density_discr kernel_length_scale
               scaled_max_curvature_threshold expansion_disturbance_tolerance maxiter
               refiner visualize;
        tol = (case expansion_disturbance_tolerance of None \<Rightarrow> 0.025 | Some x \<Rightarrow> x);
        n = length (filter is_refine_call (calls st));
        violated = stage1_violated_criteria W kernel_length_scale
                     scaled_max_curvature_threshold tol;
        reached = discr_before W density_discr (connections st)
    in length (violated_criteria st) = n \<and>
       (\<forall>i < n. violated_criteria st ! i = join '' and '' (violated (reached i)) \<and>
                violated (reached i) \<in>
                  {[''kernel length scale''], [''curvature''],
                   [''kernel length scale'', ''curvature''], [''disturbed expansions'']}) \<and>
       set (violated_criteria st) \<subseteq>
         {''kernel length scale'', ''curvature'', ''kernel length scale and curvature'',
          ''disturbed expansions''} \<and>
       (\<forall>history t. Call_warn_max_iterations history t \<in> set (calls st) \<longrightarrow>
          history = violated_criteria st \<and> length history = n)) \<and>
   (iter_violated_criteria s = [] \<longrightarrow>
      (let p = stage1_checks W kernel_length_scale scaled_max_curvature_threshold t
                 visualize s;
           s' = stage1_iteration W kernel_length_scale scaled_max_curvature_threshold t
                  visualize s
       in iter_violated_criteria (fst p) =
            stage1_violated_criteria W kernel_length_scale scaled_max_curvature_threshold t
              (current_discr s) \<and>
          (if iter_violated_criteria (fst p) = []
           then violated_criteria s' = violated_criteria s \<and>
                filter is_refine_call (calls s') = filter is_refine_call (calls s)
           else violated_criteria s' =
                  violated_criteria s @ [join '' and '' (iter_violated_criteria (fst p))] \<and>
                filter is_refine_call (calls s') =
                  filter is_refine_call (calls s) @
                    [Call_refine (map (\<lambda>f. f \<noteq> 0) (snd p))])))"
proof -
  let ?m = "case maxiter of None \<Rightarrow> 10 | Some m \<Rightarrow> m"
  let ?tol = "case expansion_disturbance_tolerance of None \<Rightarrow> 0.025 | Some x \<Rightarrow> x"
  let ?st = "refine_qbx_stage1_run W density_discr kernel_length_scale
               scaled_max_curvature_threshold expansion_disturbance_tolerance maxiter
               refiner visualize"
  let ?n = "length (filter is_refine_call (calls ?st))"
  let ?V = "stage1_violated_criteria W kernel_length_scale scaled_max_curvature_threshold ?tol"
  have f: "loop_inv W stage1_entry density_discr ?st \<and> iter_violated_criteria ?st = [] \<and>
         int (length (connections ?st)) = niter ?st - 1 \<and>
         filter is_warning_call (calls ?st) =
           (if niter ?st > ?m then [Call_warn_max_iterations (violated_criteria ?st) ?tol]
            else []) \<and>
         (niter ?st > ?m \<longrightarrow> niter ?st = max ?m 0 + 1)"
    by (rule stage1_run_facts) (rule refl)+
  then have len: "length (violated_criteria ?st) = ?n"
    and cn: "length (connections ?st) = ?n"
    and ent: "\<forall>entry \<in> set (violated_criteria ?st). stage1_entry entry"
    by (simp_all add: loop_inv_def)
  have h: "history_inv W ?V density_discr ?st \<and>
         (filter is_warning_call (calls ?st) = [] \<longrightarrow> ?V (current_discr ?st) = [])"
    by (rule stage1_run_violations) (rule refl)+
  have each: "\<forall>i < ?n.
      violated_criteria ?st ! i =
        join '' and '' (?V (discr_before W density_discr (connections ?st) i)) \<and>
      ?V (discr_before W density_discr (connections ?st) i) \<in>
        {[''kernel length scale''], [''curvature''],
         [''kernel length scale'', ''curvature''], [''disturbed expansions'']}"
  proof (intro allI impI)
    fix i assume "i < ?n"
    then have i: "i < length (connections ?st)" by (simp only: cn)
    from h have "\<forall>i < length (connections ?st).
        ?V (discr_before W density_discr (connections ?st) i) \<noteq> [] \<and>
        violated_criteria ?st ! i =
          join '' and '' (?V (discr_before W density_discr (connections ?st) i))"
      by (simp add: history_inv_def)
    with i have ne: "?V (discr_before W density_discr (connections ?st) i) \<noteq> []"
      and eq: "violated_criteria ?st ! i =
          join '' and '' (?V (discr_before W density_discr (connections ?st) i))"
      by blast+
    from stage1_violated_criteria_cases[of W kernel_length_scale
        scaled_max_curvature_threshold ?tol
        "discr_before W density_discr (connections ?st) i"] ne
    have "?V (discr_before W density_discr (connections ?st) i) \<in>
        {[''kernel length scale''], [''curvature''],
         [''kernel length scale'', ''curvature''], [''disturbed expansions'']}"
      by blast
    with eq show "violated_criteria ?st ! i =
        join '' and '' (?V (discr_before W density_discr (connections ?st) i)) \<and>
      ?V (discr_before W density_discr (connections ?st) i) \<in>
        {[''kernel length scale''], [''curvature''],
         [''kernel length scale'', ''curvature''], [''disturbed expansions'']}"
      by (rule conjI)
  qed
  have sub: "set (violated_criteria ?st) \<subseteq>
         {''kernel length scale'', ''curvature'', ''kernel length scale and curvature'',
          ''disturbed expansions''}"
    using ent unfolding stage1_entry_def by blast
  have warn: "\<forall>history t. Call_warn_max_iterations history t \<in> set (calls ?st) \<longrightarrow>
          history = violated_criteria ?st \<and> length history = ?n"
  proof (intro allI impI)
    fix history t
    assume "Call_warn_max_iterations history t \<in> set (calls ?st)"
    then have "Call_warn_max_iterations history t \<in> set (filter is_warning_call (calls ?st))"
      by (simp only: warning_call_in_filter[symmetric])
    with f have "history = violated_criteria ?st"
      by (auto split: if_splits)
    with len show "history = violated_criteria ?st \<and> length history = ?n" by simp
  qed
  have run: "length (violated_criteria ?st) = ?n \<and>
       (\<forall>i < ?n.
          violated_criteria ?st ! i =
            join '' and '' (?V (discr_before W density_discr (connections ?st) i)) \<and>
          ?V (discr_before W density_discr (connections ?st) i) \<in>
            {[''kernel length scale''], [''curvature''],
             [''kernel length scale'', ''curvature''], [''disturbed expansions'']}) \<and>
       set (violated_criteria ?st) \<subseteq>
         {''kernel length scale'', ''curvature'', ''kernel length scale and curvature'',
          ''disturbed expansions''} \<and>
       (\<forall>history t. Call_warn_max_iterations history t \<in> set (calls ?st) \<longrightarrow>
          history = violated_criteria ?st \<and> length history = ?n)"
    using len each sub warn by (intro conjI)
  have step: "iter_violated_criteria s = [] \<longrightarrow>
      (let p = stage1_checks W kernel_length_scale scaled_max_curvature_threshold t
                 visualize s;
           s' = stage1_iteration W kernel_length_scale scaled_max_curvature_threshold t
                  visualize s
       in iter_violated_criteria (fst p) =
            stage1_violated_criteria W kernel_length_scale scaled_max_curvature_threshold t
              (current_discr s) \<and>
          (if iter_violated_criteria (fst p) = []
           then violated_criteria s' = violated_criteria s \<and>
                filter is_refine_call (calls s') = filter is_refine_call (calls s)
           else violated_criteria s' =
                  violated_criteria s @ [join '' and '' (iter_violated_criteria (fst p))] \<and>
                filter is_refine_call (calls s') =
                  filter is_refine_call (calls s) @
                    [Call_refine (map (\<lambda>f. f \<noteq> 0) (snd p))]))"
    by (intro impI) (erule stage1_iteration_history)
  show ?thesis
    unfolding Let_def by (rule conjI[OF run step[unfolded Let_def]])
qed

lemma ex_stage1_both:
  "refine_qbx_stage1_run example_wrangler 1 (Some (1 / 2)) (Some 1) None (Some 2) None False =
     \<lparr>connections = [(1, 2), (2, 3)],
      violated_criteria = [''kernel length scale and curvature'', ''disturbed expansions''],
      iter_violated_criteria = [], niter = 3, current_discr = 3, current_refiner = 3,
      calls = [Call_check_kernel_length_scale, Call_check_scaled_max_curv,
               Call_refine [True],
               Call_check_kernel_length_scale, Call_check_scaled_max_curv,
               Call_build_tree, Call_find_peer_lists,
               Call_check_expansion_disks_undisturbed_by_sources,
               Call_refine [True, False],
               Call_warn_max_iterations
                 [''kernel length scale and curvature'', ''disturbed expansions'']
                 0.025]\<rparr>"
  by (simp add: refine_qbx_stage1_run_def stage1_while.simps loop_defs check_defs
      example_defs Let_def upt_rec eval_nat_numeral)

text \<open>
  An instance: a run capped at two iterations whose first iteration exceeds both
  thresholds and whose second finds a disturbed expansion disk. The warning carries the
  two entries, one per refinement.
\<close>

theorem history_entry_example:
  "violated_criteria
     (refine_qbx_stage1_run example_wrangler 1 (Some (1 / 2)) (Some 1) None (Some 2) None
        False) =
     [''kernel length scale and curvature'', ''disturbed expansions''] \<and>
   length (filter is_refine_call
     (calls (refine_qbx_stage1_run example_wrangler 1 (Some (1 / 2)) (Some 1) None (Some 2)
               None False))) = 2 \<and>
   Call_warn_max_iterations [''kernel length scale and curvature'', ''disturbed expansions'']
       0.025
     \<in> set (calls (refine_qbx_stage1_run example_wrangler 1 (Some (1 / 2)) (Some 1) None
                    (Some 2) None False)) \<and>
   stage1_violated_criteria example_wrangler (Some (1 / 2)) (Some 1) 0.025 1 =
     [''kernel length scale'', ''curvature'']"
proof -
  let ?st = "refine_qbx_stage1_run example_wrangler 1 (Some (1 / 2)) (Some 1) None (Some 2)
               None False"
  let ?s = "(initial_state 1 1 :: (nat, nat, nat \<times> nat) refine_state)
              \<lparr>iter_violated_criteria := []\<rparr>"
  note inst = history_entry_per_refinement[where W = example_wrangler and density_discr = 1
      and kernel_length_scale = "Some (1 / 2)" and scaled_max_curvature_threshold = "Some 1"
      and expansion_disturbance_tolerance = None and maxiter = "Some 2" and refiner = None
      and visualize = False and s = ?s and t = "0.025", unfolded Let_def option.case]
  have w: "Call_warn_max_iterations
       [''kernel length scale and curvature'', ''disturbed expansions''] 0.025
     \<in> set (calls ?st)"
    unfolding ex_stage1_both by simp
  from inst have "\<forall>history t. Call_warn_max_iterations history t \<in> set (calls ?st) \<longrightarrow>
          history = violated_criteria ?st \<and>
          length history = length (filter is_refine_call (calls ?st))"
    by (elim conjE)
  with w have "[''kernel length scale and curvature'', ''disturbed expansions''] =
      violated_criteria ?st \<and>
      length [''kernel length scale and curvature'', ''disturbed expansions''] =
        length (filter is_refine_call (calls ?st))"
    by blast
  then have a: "violated_criteria ?st =
      [''kernel length scale and curvature'', ''disturbed expansions'']"
    and b: "length (filter is_refine_call (calls ?st)) = 2"
    by simp_all
  have s: "iter_violated_criteria ?s = []"
    by simp
  from inst have "iter_violated_criteria ?s = [] \<longrightarrow>
      iter_violated_criteria
        (fst (stage1_checks example_wrangler (Some (1 / 2)) (Some 1) 0.025 False ?s)) =
      stage1_violated_criteria example_wrangler (Some (1 / 2)) (Some 1) 0.025
        (current_discr ?s) \<and>
      (if iter_violated_criteria
            (fst (stage1_checks example_wrangler (Some (1 / 2)) (Some 1) 0.025 False ?s)) = []
       then violated_criteria
              (stage1_iteration example_wrangler (Some (1 / 2)) (Some 1) 0.025 False ?s) =
            violated_criteria ?s \<and>
            filter is_refine_call
              (calls (stage1_iteration example_wrangler (Some (1 / 2)) (Some 1) 0.025 False
                        ?s)) =
            filter is_refine_call (calls ?s)
       else violated_criteria
              (stage1_iteration example_wrangler (Some (1 / 2)) (Some 1) 0.025 False ?s) =
            violated_criteria ?s @
              [join '' and ''
                 (iter_violated_criteria
                    (fst (stage1_checks example_wrangler (Some (1 / 2)) (Some 1) 0.025 False
                            ?s)))] \<and>
            filter is_refine_call
              (calls (stage1_iteration example_wrangler (Some (1 / 2)) (Some 1) 0.025 False
                        ?s)) =
            filter is_refine_call (calls ?s) @
              [Call_refine
                 (map (\<lambda>f. f \<noteq> 0)
                    (snd (stage1_checks example_wrangler (Some (1 / 2)) (Some 1) 0.025 False
                            ?s)))])"
    by (elim conjE)
  with s have "iter_violated_criteria
        (fst (stage1_checks example_wrangler (Some (1 / 2)) (Some 1) 0.025 False ?s)) =
      stage1_violated_criteria example_wrangler (Some (1 / 2)) (Some 1) 0.025
        (current_discr ?s)"
    by blast
  then have c: "stage1_violated_criteria example_wrangler (Some (1 / 2)) (Some 1) 0.025 1 =
     [''kernel length scale'', ''curvature'']"
    by (simp add: loop_defs check_defs example_defs Let_def upt_rec eval_nat_numeral)
  from a b w c show ?thesis by (intro conjI)
qed

end
